theory Spec2Isabelle
  imports Main "HOL-Library.Sublist"
begin

section \<open>Random phone number generator\<close>

text \<open>
  A shallow embedding of \<^verbatim>\<open>Random-Phone-Number-Generator.py\<close>: the function
  \<^verbatim>\<open>generate_phone_numbers\<close> (validation, capacity check and the retry loop) and the
  function \<^verbatim>\<open>save_to_csv\<close>.

  Python strings are sequences of code points. The model uses \<^typ>\<open>string\<close>, whose
  characters are the code points 0 to 255; the character classes of \<^verbatim>\<open>str.strip\<close>
  and \<^verbatim>\<open>str.isdigit\<close> are the Unicode ones restricted to that range. Python
  integers are unbounded: \<^typ>\<open>int\<close>.
\<close>

subsection \<open>String methods of the Python library\<close>

text \<open>\<^verbatim>\<open>str.isspace\<close> on one character: code points 9-13, 28-32, 133 and 160.\<close>

definition isspace_chr :: "char \<Rightarrow> bool" where
  "isspace_chr c =
     (let n = (of_char c :: nat)
      in (9 \<le> n \<and> n \<le> 13) \<or> (28 \<le> n \<and> n \<le> 32) \<or> n = 133 \<or> n = 160)"

text \<open>
  \<^verbatim>\<open>str.isdigit\<close> on one character: the decimal digits 48-57 and the superscript
  digits 178, 179 and 185.
\<close>

definition isdigit_chr :: "char \<Rightarrow> bool" where
  "isdigit_chr c =
     (let n = (of_char c :: nat)
      in (48 \<le> n \<and> n \<le> 57) \<or> n = 178 \<or> n = 179 \<or> n = 185)"

text \<open>\<^verbatim>\<open>s.strip()\<close>: leading and trailing whitespace removed.\<close>

definition strip :: "string \<Rightarrow> string" where
  "strip s = rev (dropWhile isspace_chr (rev (dropWhile isspace_chr s)))"

text \<open>\<^verbatim>\<open>s.lstrip(chars)\<close>: every leading character that occurs in \<open>chars\<close> removed.\<close>

definition lstrip :: "string \<Rightarrow> string \<Rightarrow> string" where
  "lstrip chars s = dropWhile (\<lambda>c. c \<in> set chars) s"

text \<open>\<^verbatim>\<open>s.isdigit()\<close>: at least one character, and every character a digit.\<close>

definition isdigit :: "string \<Rightarrow> bool" where
  "isdigit s = (s \<noteq> [] \<and> list_all isdigit_chr s)"

subsection \<open>The random source\<close>

text \<open>
  \<^verbatim>\<open>rng = random.SystemRandom()\<close> is a module-level source of operating-system
  randomness. It is modelled as an oracle: \<open>rng k\<close> is the outcome of the \<open>k\<close>-th draw,
  and the state of the source is the number of draws made so far.
  \<^verbatim>\<open>rng.choice(seq)\<close> returns \<^verbatim>\<open>seq[i]\<close> for a drawn index \<open>i\<close> below the length
  of the sequence; the outcome is reduced modulo the length, so that every oracle is a
  source and every source is an oracle.
\<close>

type_synonym random_source = "nat \<Rightarrow> nat"

definition choice :: "random_source \<Rightarrow> nat \<Rightarrow> 'a list \<Rightarrow> 'a" where
  "choice rng k seq = seq ! (rng k mod length seq)"

text \<open>Two concrete sources: one that always draws the same index, one that counts.\<close>

definition constant_source :: "nat \<Rightarrow> random_source" where
  "constant_source d k = d"

definition counting_source :: random_source where
  "counting_source k = k"

subsection \<open>Errors\<close>

text \<open>
  Every failure of \<^verbatim>\<open>generate_phone_numbers\<close> is a \<^verbatim>\<open>ValueError\<close>; the five raise
  sites differ in their message, and the model keeps one constructor for each, with
  the numbers that the message reports.
\<close>

datatype error =
    TotalLengthNotPositive
  | CountryCodeNotDigits
  | LocalCodeNotDigits
  | TotalLengthTooShort int
  | CannotGenerateUnique int int int

text \<open>
  The error kinds of the specification: the capacity failure is
  \<open>CapacityExceeded\<close>, every other failure is \<open>InvalidConfiguration\<close>.
\<close>

datatype error_kind = InvalidConfiguration | CapacityExceeded

fun kind_of :: "error \<Rightarrow> error_kind" where
  "kind_of (CannotGenerateUnique limit remaining_length max_possible) = CapacityExceeded"
| "kind_of e = InvalidConfiguration"

subsection \<open>The generator\<close>

text \<open>
  \<^verbatim>\<open>''.join(rng.choice('0123456789') for _ in range(remaining_length))\<close>, drawn
  from position \<open>pos\<close> of the source on.
\<close>

definition number_body :: "random_source \<Rightarrow> nat \<Rightarrow> int \<Rightarrow> string" where
  "number_body rng pos remaining_length =
     map (\<lambda>j. choice rng (pos + j) ''0123456789'') [0..<nat remaining_length]"

text \<open>
  The loop \<^verbatim>\<open>while len(results) < limit\<close>. Its state is the position in the random
  source, the list \<open>results\<close> and the set \<open>seen\<close>. A collision under \<open>unique\<close> is the
  \<^verbatim>\<open>continue\<close>: the draws are spent and nothing else changes. The loop has no bound
  on the number of iterations, so the result is an option: \<open>None\<close> is a loop that
  never ends.
\<close>

partial_function (option) generate_loop ::
  "random_source \<Rightarrow> string \<Rightarrow> string \<Rightarrow> int \<Rightarrow> int \<Rightarrow> bool \<Rightarrow> bool \<Rightarrow>
     nat \<Rightarrow> string list \<Rightarrow> string set \<Rightarrow> string list option"
where
  "generate_loop rng country_digits local_digits remaining_length limit include_plus unique
       pos results seen =
     (if int (length results) < limit then
        (let number_body = number_body rng pos remaining_length;
             full_number = country_digits @ local_digits @ number_body;
             pos' = pos + nat remaining_length
         in if unique \<and> full_number \<in> seen then
              generate_loop rng country_digits local_digits remaining_length limit
                include_plus unique pos' results seen
            else
              generate_loop rng country_digits local_digits remaining_length limit
                include_plus unique pos'
                (results @ [if include_plus then CHR ''+'' # full_number else full_number])
                (if unique then insert full_number seen else seen))
      else Some results)"

text \<open>
  \<^verbatim>\<open>generate_phone_numbers\<close>: the checks in the order of the source, each raise a
  branch that returns the error, then the loop from the empty state.
\<close>

definition generate_phone_numbers ::
  "random_source \<Rightarrow> int \<Rightarrow> string \<Rightarrow> string \<Rightarrow> int \<Rightarrow> bool \<Rightarrow> bool \<Rightarrow>
     (error + string list) option"
where
  "generate_phone_numbers rng total_length country_code local_code limit include_plus unique =
     (if total_length \<le> 0 then Some (Inl TotalLengthNotPositive)
      else
        let country_digits = lstrip ''+'' (strip country_code);
            local_digits = strip local_code
        in if \<not> isdigit country_digits then Some (Inl CountryCodeNotDigits)
           else if local_digits \<noteq> [] \<and> \<not> isdigit local_digits then Some (Inl LocalCodeNotDigits)
           else
             let remaining_length =
                   total_length - int (length country_digits) - int (length local_digits)
             in if remaining_length \<le> 0 then Some (Inl (TotalLengthTooShort remaining_length))
                else
                  let max_possible = (10::int) ^ nat remaining_length
                  in if unique \<and> limit > max_possible then
                       Some (Inl (CannotGenerateUnique limit remaining_length max_possible))
                     else
                       map_option Inr
                         (generate_loop rng country_digits local_digits remaining_length limit
                            include_plus unique 0 [] {}))"

declare generate_loop.simps [code]

subsection \<open>Configurations and random sources, for stating properties\<close>

text \<open>
  A configuration is valid when it passes every check of \<^verbatim>\<open>generate_phone_numbers\<close>:
  a positive total length, a country code and a local code of digits only (the local
  code may be empty), a positive remaining length, and room for \<open>limit\<close> distinct
  numbers when \<open>unique\<close> is asked for.
\<close>

definition remaining_length_of :: "int \<Rightarrow> string \<Rightarrow> string \<Rightarrow> int" where
  "remaining_length_of total_length country_code local_code =
     total_length - int (length (lstrip ''+'' (strip country_code)))
       - int (length (strip local_code))"

definition valid_config :: "int \<Rightarrow> string \<Rightarrow> string \<Rightarrow> int \<Rightarrow> bool \<Rightarrow> bool" where
  "valid_config total_length country_code local_code limit unique =
     (0 < total_length
      \<and> isdigit (lstrip ''+'' (strip country_code))
      \<and> (strip local_code = [] \<or> isdigit (strip local_code))
      \<and> 0 < remaining_length_of total_length country_code local_code
      \<and> (unique \<longrightarrow>
           limit \<le> 10 ^ nat (remaining_length_of total_length country_code local_code)))"

text \<open>
  The bodies that the first \<open>n\<close> iterations of the loop draw: every iteration spends
  \<open>remaining_length\<close> draws, whether its number is kept or not.
\<close>

definition bodies :: "random_source \<Rightarrow> int \<Rightarrow> nat \<Rightarrow> string list" where
  "bodies rng remaining_length n =
     map (\<lambda>i. number_body rng (i * nat remaining_length) remaining_length) [0..<n]"

text \<open>The full numbers of the \<open>n\<close> iterations that start at position \<open>pos\<close>.\<close>

definition candidates ::
  "random_source \<Rightarrow> string \<Rightarrow> string \<Rightarrow> int \<Rightarrow> nat \<Rightarrow> nat \<Rightarrow> string set" where
  "candidates rng cd ld r pos n =
     (\<lambda>i. cd @ ld @ number_body rng (pos + i * nat r) r) ` {..<n}"

text \<open>The digit content of a result: the leading separator removed, if there is one.\<close>

definition without_separator :: "string \<Rightarrow> string" where
  "without_separator s = (if prefix ''+'' s then drop 1 s else s)"

text \<open>
  A string of whitespace and separator characters only; the empty string is one.
\<close>

definition blank_or_plus :: "string \<Rightarrow> bool" where
  "blank_or_plus s = list_all (\<lambda>c. isspace_chr c \<or> c = CHR ''+'') s"

subsection \<open>The writer\<close>

text \<open>
  \<^verbatim>\<open>csv.writer(f)\<close> writes in the \<^verbatim>\<open>excel\<close> dialect: delimiter comma, quote
  character \<^verbatim>\<open>"\<close>, minimal quoting with doubled quote characters, line terminator
  carriage return and line feed.
\<close>

definition delimiter :: char where
  "delimiter = CHR '',''"

definition quotechar :: char where
  "quotechar = CHR 0x22"

definition CR :: char where
  "CR = CHR 0x0D"

definition LF :: char where
  "LF = CHR 0x0A"

definition lineterminator :: string where
  "lineterminator = [CR, LF]"

text \<open>A field is quoted when it holds one of these characters.\<close>

definition needs_quoting :: "char \<Rightarrow> bool" where
  "needs_quoting c = (c = delimiter \<or> c = quotechar \<or> c \<in> set lineterminator)"

text \<open>The characters of a field, each quote character doubled.\<close>

definition join_append_data :: "string \<Rightarrow> string" where
  "join_append_data field =
     concat (map (\<lambda>c. if c = quotechar then [quotechar, c] else [c]) field)"

definition join_append :: "string \<Rightarrow> string" where
  "join_append field =
     (if list_ex needs_quoting field then quotechar # join_append_data field @ [quotechar]
      else field)"

fun join_fields :: "string list \<Rightarrow> string" where
  "join_fields [] = []"
| "join_fields [field] = join_append field"
| "join_fields (field # row) = join_append field @ delimiter # join_fields row"

text \<open>
  \<^verbatim>\<open>writer.writerow(row)\<close>: the fields joined, then the line terminator. A row of one
  empty field is written as two quote characters, so that the line is not empty.
\<close>

definition writerow :: "string list \<Rightarrow> string" where
  "writerow row =
     (if row = [[]] then [quotechar, quotechar] else join_fields row) @ lineterminator"

text \<open>\<^verbatim>\<open>writer.writerows(rows)\<close>: every row written in turn.\<close>

definition writerows :: "string list list \<Rightarrow> string" where
  "writerows rows = concat (map writerow rows)"

text \<open>
  The file system holds the contents of its files and the paths that the environment
  does not let the program open for writing (a missing directory, a directory, a
  file without write permission). \<^verbatim>\<open>open(filename, mode="w", newline="",
  encoding="utf-8")\<close> raises for such a path, for the empty path and for a path with
  a null character; otherwise it replaces the file, and the terminators are written
  as they are.
\<close>

record filesystem =
  files :: "string \<rightharpoonup> string"
  cannot_open :: "string set"

definition empty_filesystem :: filesystem where
  "empty_filesystem = \<lparr>files = Map.empty, cannot_open = {}\<rparr>"

datatype io_error = EmbeddedNullByte | FileNotFoundError | OSError

text \<open>The exception that \<^verbatim>\<open>open\<close> raises for a path, if it raises one.\<close>

definition open_error :: "filesystem \<Rightarrow> string \<Rightarrow> io_error option" where
  "open_error fs filename =
     (if CHR 0x00 \<in> set filename then Some EmbeddedNullByte
      else if filename = [] then Some FileNotFoundError
      else if filename \<in> cannot_open fs then Some OSError
      else None)"

text \<open>
  \<^verbatim>\<open>save_to_csv\<close>: when the file cannot be opened the exception leaves the function
  and nothing is written; otherwise the file holds the header row and the rows of the
  numbers.
\<close>

definition save_to_csv :: "string list \<Rightarrow> string \<Rightarrow> filesystem \<Rightarrow> io_error + filesystem" where
  "save_to_csv phone_numbers filename fs =
     (case open_error fs filename of
        Some e \<Rightarrow> Inl e
      | None \<Rightarrow>
          Inr (fs\<lparr>files := (files fs)(filename \<mapsto>
                 writerow [''Phone Number''] @ writerows (map (\<lambda>p. [p]) phone_numbers))\<rparr>))"

subsection \<open>Reading the file back\<close>

text \<open>
  The program never reads its file. The reader that the round trip is stated for is
  the counterpart of the writer in the Python library, \<^verbatim>\<open>csv.reader\<close> in the same
  dialect, over a file opened with \<^verbatim>\<open>newline=""\<close>: a state machine that is fed the
  characters of each line and an end-of-line mark after each line, and that yields a
  record whenever it is back at the start of a record after a line.
\<close>

datatype parser_state =
  START_RECORD | START_FIELD | IN_FIELD | IN_QUOTED_FIELD | QUOTE_IN_QUOTED_FIELD | EAT_CRNL

datatype input = Chr char | EOL

record reader =
  state :: parser_state
  fields_r :: "string list"
  field :: string

definition parse_reset :: reader where
  "parse_reset = \<lparr>state = START_RECORD, fields_r = [], field = []\<rparr>"

definition parse_save_field :: "reader \<Rightarrow> reader" where
  "parse_save_field r = r\<lparr>fields_r := fields_r r @ [field r], field := []\<rparr>"

text \<open>
  The reader refuses a field of more than \<^verbatim>\<open>csv.field_size_limit()\<close> characters;
  the program leaves the limit at its default.
\<close>

definition field_limit :: nat where
  "field_limit = 131072"

definition parse_add_char :: "reader \<Rightarrow> char \<Rightarrow> reader option" where
  "parse_add_char r c =
     (if field_limit \<le> length (field r) then None else Some (r\<lparr>field := field r @ [c]\<rparr>))"

definition is_newline :: "input \<Rightarrow> bool" where
  "is_newline x = (x = Chr LF \<or> x = Chr CR \<or> x = EOL)"

definition after_line :: "input \<Rightarrow> parser_state" where
  "after_line x = (if x = EOL then START_RECORD else EAT_CRNL)"

text \<open>
  One step of the machine; \<open>None\<close> is the error of the reader, also the one for
  a field over the limit. The case of a field
  that starts is shared by the first two states: the start of a record falls through
  to it.
\<close>

definition start_field :: "reader \<Rightarrow> input \<Rightarrow> reader option" where
  "start_field r x =
     (if is_newline x then Some ((parse_save_field r)\<lparr>state := after_line x\<rparr>)
      else if x = Chr quotechar then Some (r\<lparr>state := IN_QUOTED_FIELD\<rparr>)
      else if x = Chr delimiter then Some (parse_save_field r)
      else (case x of
              Chr c \<Rightarrow> map_option (\<lambda>r'. r'\<lparr>state := IN_FIELD\<rparr>) (parse_add_char r c)
            | EOL \<Rightarrow> None))"

definition parse_process_char :: "reader \<Rightarrow> input \<Rightarrow> reader option" where
  "parse_process_char r x =
     (case state r of
        START_RECORD \<Rightarrow>
          if x = EOL then Some r
          else if is_newline x then Some (r\<lparr>state := EAT_CRNL\<rparr>)
          else start_field (r\<lparr>state := START_FIELD\<rparr>) x
      | START_FIELD \<Rightarrow> start_field r x
      | IN_FIELD \<Rightarrow>
          if is_newline x then Some ((parse_save_field r)\<lparr>state := after_line x\<rparr>)
          else if x = Chr delimiter then Some ((parse_save_field r)\<lparr>state := START_FIELD\<rparr>)
          else (case x of Chr c \<Rightarrow> parse_add_char r c | EOL \<Rightarrow> None)
      | IN_QUOTED_FIELD \<Rightarrow>
          if x = EOL then Some r
          else if x = Chr quotechar then Some (r\<lparr>state := QUOTE_IN_QUOTED_FIELD\<rparr>)
          else (case x of Chr c \<Rightarrow> parse_add_char r c | EOL \<Rightarrow> None)
      | QUOTE_IN_QUOTED_FIELD \<Rightarrow>
          if x = Chr quotechar then
            map_option (\<lambda>r'. r'\<lparr>state := IN_QUOTED_FIELD\<rparr>) (parse_add_char r quotechar)
          else if x = Chr delimiter then Some ((parse_save_field r)\<lparr>state := START_FIELD\<rparr>)
          else if is_newline x then Some ((parse_save_field r)\<lparr>state := after_line x\<rparr>)
          else (case x of
                  Chr c \<Rightarrow> map_option (\<lambda>r'. r'\<lparr>state := IN_FIELD\<rparr>) (parse_add_char r c)
                | EOL \<Rightarrow> None)
      | EAT_CRNL \<Rightarrow>
          if x = EOL then Some (r\<lparr>state := START_RECORD\<rparr>)
          else if is_newline x then Some r
          else None)"

text \<open>
  The input of the machine for a file content: its characters, with the end-of-line
  mark after every line. A line ends after a line feed, after a carriage return that
  no line feed follows, and at the end of the content.
\<close>

fun reader_input :: "string \<Rightarrow> input list" where
  "reader_input [] = []"
| "reader_input (c # cs) =
     (if c = LF \<or> (c = CR \<and> (case cs of [] \<Rightarrow> True | d # ds \<Rightarrow> d \<noteq> LF)) \<or> cs = []
      then [Chr c, EOL] else [Chr c]) @ reader_input cs"

text \<open>
  The records of an input: a record is complete when the machine is at the start of a
  record after an end-of-line mark. At the end of the input, a field that is still
  open is closed and its record returned.
\<close>

fun read_records :: "reader \<Rightarrow> input list \<Rightarrow> string list list option" where
  "read_records r [] =
     (if field r \<noteq> [] \<or> state r = IN_QUOTED_FIELD then Some [fields_r (parse_save_field r)]
      else Some [])"
| "read_records r (x # xs) =
     (case parse_process_char r x of
        None \<Rightarrow> None
      | Some r' \<Rightarrow>
          if x = EOL \<and> state r' = START_RECORD
          then map_option ((#) (fields_r r')) (read_records parse_reset xs)
          else read_records r' xs)"

definition csv_reader :: "string \<Rightarrow> string list list option" where
  "csv_reader content = read_records parse_reset (reader_input content)"

text \<open>
  Reading a file of the file system: \<open>None\<close> when it is absent or when the reader
  raises its error.
\<close>

definition read_csv :: "string \<Rightarrow> filesystem \<Rightarrow> string list list option" where
  "read_csv filename fs =
     (case files fs filename of None \<Rightarrow> None | Some content \<Rightarrow> csv_reader content)"

text \<open>
  Writing the numbers and reading the file back: the exception of the writer, or what
  the reader returns for the written file.
\<close>

definition write_then_read ::
  "string list \<Rightarrow> string \<Rightarrow> filesystem \<Rightarrow> io_error + string list list option" where
  "write_then_read phone_numbers filename fs =
     (case save_to_csv phone_numbers filename fs of
        Inl e \<Rightarrow> Inl e
      | Inr fs' \<Rightarrow> Inr (read_csv filename fs'))"

section \<open>Characters and digits\<close>

lemma plus_not_digit: "\<not> isdigit_chr CHR ''+''"
  by (simp add: isdigit_chr_def)

lemma plus_not_space: "\<not> isspace_chr CHR ''+''"
  by (simp add: isspace_chr_def)

lemma digit_not_space: "isdigit_chr c \<Longrightarrow> \<not> isspace_chr c"
  by (auto simp: isdigit_chr_def isspace_chr_def Let_def)

lemma decimal_isdigit: "c \<in> set ''0123456789'' \<Longrightarrow> isdigit_chr c"
  by (auto simp: isdigit_chr_def)

lemma choice_decimal: "choice rng k ''0123456789'' \<in> set ''0123456789''"
proof -
  have "rng k mod length ''0123456789'' < length ''0123456789''" by simp
  then show ?thesis unfolding choice_def by (rule nth_mem)
qed

lemma length_number_body: "length (number_body rng pos r) = nat r"
  by (simp add: number_body_def)

lemma set_number_body: "set (number_body rng pos r) \<subseteq> set ''0123456789''"
  unfolding number_body_def using choice_decimal by auto

subsection \<open>Stripping\<close>

lemma set_strip: "set (strip s) \<subseteq> set s"
proof
  fix c assume "c \<in> set (strip s)"
  then have "c \<in> set (dropWhile isspace_chr (rev (dropWhile isspace_chr s)))"
    by (simp add: strip_def)
  then have "c \<in> set (rev (dropWhile isspace_chr s))" by (rule set_dropWhileD)
  then have "c \<in> set (dropWhile isspace_chr s)" by simp
  then show "c \<in> set s" by (rule set_dropWhileD)
qed

lemma set_lstrip: "set (lstrip chars s) \<subseteq> set s"
  unfolding lstrip_def by (auto dest: set_dropWhileD)

lemma strip_id:
  assumes "s \<noteq> []" "\<not> isspace_chr (hd s)" "\<not> isspace_chr (last s)"
  shows "strip s = s"
proof -
  from assms(1,2) have "dropWhile isspace_chr s = s" by (cases s) auto
  moreover from assms(1,3) have "dropWhile isspace_chr (rev s) = rev s"
    by (cases "rev s") (auto simp: hd_rev [symmetric] simp del: hd_rev)
  ultimately show ?thesis by (simp add: strip_def)
qed

lemma lstrip_plus_digits:
  assumes "isdigit digits"
  shows "lstrip ''+'' (strip (replicate n CHR ''+'' @ digits)) = digits"
proof -
  from assms obtain d ds where digits: "digits = d # ds" and d: "isdigit_chr d"
    and last: "isdigit_chr (last digits)"
    by (cases digits) (auto simp: isdigit_def list_all_iff)
  let ?s = "replicate n CHR ''+'' @ digits"
  have "hd ?s = CHR ''+'' \<or> hd ?s = d" using digits by (cases n) auto
  then have "\<not> isspace_chr (hd ?s)" using plus_not_space digit_not_space [OF d] by auto
  moreover have "last ?s = last digits" using digits by simp
  then have "\<not> isspace_chr (last ?s)" using digit_not_space [OF last] by simp
  ultimately have "strip ?s = ?s" using digits by (intro strip_id) auto
  moreover have "dropWhile (\<lambda>c. c \<in> set ''+'') ?s = dropWhile (\<lambda>c. c \<in> set ''+'') digits"
    by (rule dropWhile_append2) simp
  moreover have "dropWhile (\<lambda>c. c \<in> set ''+'') digits = digits"
    using digits d plus_not_digit by auto
  ultimately show ?thesis by (simp add: lstrip_def)
qed

lemma blank_or_plus_not_digits:
  assumes "blank_or_plus country_code"
  shows "\<not> isdigit (lstrip ''+'' (strip country_code))"
proof
  let ?cd = "lstrip ''+'' (strip country_code)"
  assume digits: "isdigit ?cd"
  then obtain c where c: "c \<in> set ?cd" "isdigit_chr c"
    by (cases ?cd) (auto simp: isdigit_def)
  from c(1) have "c \<in> set country_code" using set_lstrip set_strip by blast
  with assms have "isspace_chr c \<or> c = CHR ''+''"
    by (simp add: blank_or_plus_def list_all_iff)
  with c(2) show False using digit_not_space plus_not_digit by blast
qed

section \<open>The retry loop\<close>

subsection \<open>Unfolding one iteration\<close>

lemma generate_loop_done:
  "\<not> int (length results) < limit \<Longrightarrow>
   generate_loop rng cd ld r limit ip u pos results seen = Some results"
  by (subst generate_loop.simps) simp

lemma generate_loop_collision:
  "int (length results) < limit \<Longrightarrow> u \<Longrightarrow> cd @ ld @ number_body rng pos r \<in> seen \<Longrightarrow>
   generate_loop rng cd ld r limit ip u pos results seen =
   generate_loop rng cd ld r limit ip u (pos + nat r) results seen"
  by (subst generate_loop.simps) simp

lemma generate_loop_append:
  "int (length results) < limit \<Longrightarrow> \<not> (u \<and> cd @ ld @ number_body rng pos r \<in> seen) \<Longrightarrow>
   generate_loop rng cd ld r limit ip u pos results seen =
   generate_loop rng cd ld r limit ip u (pos + nat r)
     (results @ [if ip then CHR ''+'' # cd @ ld @ number_body rng pos r
                 else cd @ ld @ number_body rng pos r])
     (if u then insert (cd @ ld @ number_body rng pos r) seen else seen)"
  by (subst generate_loop.simps) (auto simp: Let_def)

subsection \<open>Invariants\<close>

text \<open>
  A property that holds at the start and that each of the two ways through the body
  keeps holds when the loop returns, together with the failed guard.
\<close>

lemma generate_loop_invariant:
  assumes ret: "generate_loop rng cd ld r limit ip u pos rs seen = Some res"
    and init: "I pos rs seen"
    and collision: "\<And>pos rs seen. I pos rs seen \<Longrightarrow> int (length rs) < limit \<Longrightarrow> u \<Longrightarrow>
          cd @ ld @ number_body rng pos r \<in> seen \<Longrightarrow> I (pos + nat r) rs seen"
    and append: "\<And>pos rs seen. I pos rs seen \<Longrightarrow> int (length rs) < limit \<Longrightarrow>
          \<not> (u \<and> cd @ ld @ number_body rng pos r \<in> seen) \<Longrightarrow>
          I (pos + nat r)
            (rs @ [if ip then CHR ''+'' # cd @ ld @ number_body rng pos r
                   else cd @ ld @ number_body rng pos r])
            (if u then insert (cd @ ld @ number_body rng pos r) seen else seen)"
  shows "\<exists>pos' seen'. I pos' res seen' \<and> \<not> int (length res) < limit"
proof -
  let ?Q = "\<lambda>res. \<exists>pos' seen'. I pos' res seen' \<and> \<not> int (length res) < limit"
  let ?P = "\<lambda>rng' cd' ld' r' limit' ip' u' pos rs seen res.
      rng' = rng \<longrightarrow> cd' = cd \<longrightarrow> ld' = ld \<longrightarrow> r' = r \<longrightarrow> limit' = limit \<longrightarrow> ip' = ip \<longrightarrow> u' = u \<longrightarrow>
      I pos rs seen \<longrightarrow> ?Q res"
  have "?P rng cd ld r limit ip u pos rs seen res"
  proof (rule generate_loop.raw_induct [where P = ?P, OF _ ret])
    fix f rng' cd' ld' r' limit' ip' u' pos rs seen res
    assume IH: "\<And>rng' cd' ld' r' limit' ip' u' pos rs seen res.
        f rng' cd' ld' r' limit' ip' u' pos rs seen = Some res \<Longrightarrow>
        ?P rng' cd' ld' r' limit' ip' u' pos rs seen res"
      and eq: "(if int (length rs) < limit' then
        (let number_body = number_body rng' pos r';
             full_number = cd' @ ld' @ number_body;
             pos' = pos + nat r'
         in if u' \<and> full_number \<in> seen then
              f rng' cd' ld' r' limit' ip' u' pos' rs seen
            else
              f rng' cd' ld' r' limit' ip' u' pos'
                (rs @ [if ip' then CHR ''+'' # full_number else full_number])
                (if u' then insert full_number seen else seen))
      else Some rs) = Some res"
    show "?P rng' cd' ld' r' limit' ip' u' pos rs seen res"
    proof (intro impI)
      assume same: "rng' = rng" "cd' = cd" "ld' = ld" "r' = r" "limit' = limit" "ip' = ip" "u' = u"
        and inv: "I pos rs seen"
      show "?Q res"
      proof (cases "int (length rs) < limit")
        case False
        with eq same have "res = rs" by simp
        with inv False show ?thesis by blast
      next
        case guard: True
        show ?thesis
        proof (cases "u \<and> cd @ ld @ number_body rng pos r \<in> seen")
          case True
          with eq same guard
          have "f rng cd ld r limit ip u (pos + nat r) rs seen = Some res"
            by (simp add: Let_def)
          moreover from collision [OF inv guard] True have "I (pos + nat r) rs seen" by blast
          ultimately show ?thesis using IH by blast
        next
          case False
          let ?full = "cd @ ld @ number_body rng pos r"
          from eq same guard False
          have "f rng cd ld r limit ip u (pos + nat r)
                  (rs @ [if ip then CHR ''+'' # ?full else ?full])
                  (if u then insert ?full seen else seen) = Some res"
            by (simp add: Let_def)
          moreover note append [OF inv guard False]
          ultimately show ?thesis using IH by blast
        qed
      qed
    qed
  qed
  with init show ?thesis by blast
qed


subsection \<open>When the loop returns\<close>

lemma candidates_0: "candidates rng cd ld r pos 0 = {}"
  by (simp add: candidates_def)

lemma candidates_Suc:
  "candidates rng cd ld r pos (Suc n) =
   insert (cd @ ld @ number_body rng pos r) (candidates rng cd ld r (pos + nat r) n)"
proof -
  have "{..<Suc n} = insert 0 (Suc ` {..<n})"
    by (auto simp: lessThan_Suc_eq_insert_0)
  then show ?thesis
    by (simp add: candidates_def image_image add.assoc)
qed

lemma finite_candidates: "finite (candidates rng cd ld r pos n)"
  by (simp add: candidates_def)

lemma generate_loop_returns_unique:
  "limit \<le> int (length rs) + int (card (candidates rng cd ld r pos n - seen)) \<Longrightarrow>
   \<exists>res. generate_loop rng cd ld r limit ip True pos rs seen = Some res"
proof (induction n arbitrary: pos rs seen)
  case 0
  then have "\<not> int (length rs) < limit" by (simp add: candidates_0)
  then show ?case by (simp add: generate_loop_done)
next
  case (Suc n)
  let ?full = "cd @ ld @ number_body rng pos r"
  let ?C = "candidates rng cd ld r (pos + nat r) n"
  show ?case
  proof (cases "int (length rs) < limit")
    case False
    then show ?thesis by (simp add: generate_loop_done)
  next
    case guard: True
    show ?thesis
    proof (cases "?full \<in> seen")
      case True
      then have "candidates rng cd ld r pos (Suc n) - seen = ?C - seen"
        by (auto simp: candidates_Suc)
      with Suc.prems have "limit \<le> int (length rs) + int (card (?C - seen))" by simp
      from Suc.IH [OF this] show ?thesis
        using guard True by (simp add: generate_loop_collision)
    next
      case False
      then have "candidates rng cd ld r pos (Suc n) - seen = insert ?full (?C - insert ?full seen)"
        by (auto simp: candidates_Suc)
      moreover have "card (insert ?full (?C - insert ?full seen)) = Suc (card (?C - insert ?full seen))"
        by (simp add: finite_candidates)
      ultimately have "limit \<le> int (length (rs @ [if ip then CHR ''+'' # ?full else ?full]))
          + int (card (?C - insert ?full seen))"
        using Suc.prems by simp
      from Suc.IH [OF this] show ?thesis
        using guard False by (simp add: generate_loop_append)
    qed
  qed
qed

lemma generate_loop_returns_nonunique:
  "\<exists>res. generate_loop rng cd ld r limit ip False pos rs seen = Some res"
proof (induction "nat (limit - int (length rs))" arbitrary: pos rs)
  case 0
  then have "\<not> int (length rs) < limit" by simp
  then show ?case by (simp add: generate_loop_done)
next
  case (Suc n)
  let ?full = "cd @ ld @ number_body rng pos r"
  let ?rs = "rs @ [if ip then CHR ''+'' # ?full else ?full]"
  from Suc.hyps(2) have guard: "int (length rs) < limit" by simp
  from Suc.hyps(2) have "n = nat (limit - int (length ?rs))" by simp
  from Suc.hyps(1) [OF this] show ?case
    using guard by (simp add: generate_loop_append)
qed

lemma generate_loop_unique_needs:
  assumes ret: "generate_loop rng cd ld r limit ip True pos rs seen = Some res"
  shows "\<exists>n. limit \<le> int (length rs) + int (card (candidates rng cd ld r pos n - seen))"
proof -
  let ?P = "\<lambda>rng cd ld r limit (ip::bool) u pos (rs::string list) seen (res::string list).
      u \<longrightarrow> (\<exists>n. limit \<le> int (length rs) + int (card (candidates rng cd ld r pos n - seen)))"
  have "?P rng cd ld r limit ip True pos rs seen res"
  proof (rule generate_loop.raw_induct [where P = ?P, OF _ ret])
    fix f rng cd ld r limit ip u pos rs seen res
    assume IH: "\<And>rng cd ld r limit ip u pos rs seen res.
        f rng cd ld r limit ip u pos rs seen = Some res \<Longrightarrow>
        ?P rng cd ld r limit ip u pos rs seen res"
      and eq: "(if int (length rs) < limit then
        (let number_body = number_body rng pos r;
             full_number = cd @ ld @ number_body;
             pos' = pos + nat r
         in if u \<and> full_number \<in> seen then
              f rng cd ld r limit ip u pos' rs seen
            else
              f rng cd ld r limit ip u pos'
                (rs @ [if ip then CHR ''+'' # full_number else full_number])
                (if u then insert full_number seen else seen))
      else Some rs) = Some res"
    let ?full = "cd @ ld @ number_body rng pos r"
    show "?P rng cd ld r limit ip u pos rs seen res"
    proof (intro impI)
      assume u: u
      show "\<exists>n. limit \<le> int (length rs) + int (card (candidates rng cd ld r pos n - seen))"
      proof (cases "int (length rs) < limit")
        case False
        then have "limit \<le> int (length rs) + int (card (candidates rng cd ld r pos 0 - seen))"
          by simp
        then show ?thesis ..
      next
        case guard: True
        show ?thesis
        proof (cases "?full \<in> seen")
          case True
          with eq guard u have "f rng cd ld r limit ip u (pos + nat r) rs seen = Some res"
            by (simp add: Let_def)
          from IH [OF this] u obtain n
            where n: "limit \<le> int (length rs) + int (card (candidates rng cd ld r (pos + nat r) n - seen))"
            by blast
          from True have "candidates rng cd ld r pos (Suc n) - seen
              = candidates rng cd ld r (pos + nat r) n - seen"
            by (auto simp: candidates_Suc)
          with n have "limit \<le> int (length rs) + int (card (candidates rng cd ld r pos (Suc n) - seen))"
            by simp
          then show ?thesis ..
        next
          case False
          with eq guard u have "f rng cd ld r limit ip u (pos + nat r)
              (rs @ [if ip then CHR ''+'' # ?full else ?full]) (insert ?full seen) = Some res"
            by (simp add: Let_def)
          from IH [OF this] u obtain n
            where n: "limit \<le> 1 + int (length rs)
                + int (card (candidates rng cd ld r (pos + nat r) n - insert ?full seen))"
            by auto
          from False have "candidates rng cd ld r pos (Suc n) - seen
              = insert ?full (candidates rng cd ld r (pos + nat r) n - insert ?full seen)"
            by (auto simp: candidates_Suc)
          moreover have "card (insert ?full (candidates rng cd ld r (pos + nat r) n - insert ?full seen))
              = Suc (card (candidates rng cd ld r (pos + nat r) n - insert ?full seen))"
            by (simp add: finite_candidates)
          ultimately have "limit \<le> int (length rs) + int (card (candidates rng cd ld r pos (Suc n) - seen))"
            using n by simp
          then show ?thesis ..
        qed
      qed
    qed
  qed
  then show ?thesis by simp
qed

lemma candidates_bodies:
  "candidates rng cd ld r 0 n = (\<lambda>b. cd @ ld @ b) ` set (bodies rng r n)"
  by (simp add: candidates_def bodies_def image_image atLeast0LessThan)

lemma card_candidates: "card (candidates rng cd ld r 0 n) = card (set (bodies rng r n))"
proof -
  have "inj_on (\<lambda>b. cd @ ld @ b) (set (bodies rng r n))"
    by (simp add: inj_on_def)
  then show ?thesis by (simp add: candidates_bodies card_image)
qed

lemma generate_loop_returns_iff:
  "(\<exists>res. generate_loop rng cd ld r limit ip u 0 [] {} = Some res) \<longleftrightarrow>
   (u \<longrightarrow> (\<exists>n. limit \<le> int (card (set (bodies rng r n)))))"
proof (cases u)
  case False
  then show ?thesis using generate_loop_returns_nonunique [of rng cd ld r limit ip 0 "[]" "{}"] by simp
next
  case True
  show ?thesis
  proof
    assume "\<exists>res. generate_loop rng cd ld r limit ip u 0 [] {} = Some res"
    then obtain res where "generate_loop rng cd ld r limit ip True 0 [] {} = Some res"
      using True by auto
    from generate_loop_unique_needs [OF this]
    show "u \<longrightarrow> (\<exists>n. limit \<le> int (card (set (bodies rng r n))))"
      by (simp add: card_candidates)
  next
    assume "u \<longrightarrow> (\<exists>n. limit \<le> int (card (set (bodies rng r n))))"
    with True obtain n where "limit \<le> int (card (set (bodies rng r n)))" by blast
    then have "limit \<le> int (length ([]::string list)) + int (card (candidates rng cd ld r 0 n - {}))"
      by (simp add: card_candidates)
    from generate_loop_returns_unique [OF this] True
    show "\<exists>res. generate_loop rng cd ld r limit ip u 0 [] {} = Some res" by simp
  qed
qed

subsection \<open>What the loop returns\<close>

lemma generate_loop_results:
  assumes ret: "generate_loop rng cd ld r limit ip u 0 [] {} = Some res"
  shows "\<exists>fulls. res = map (\<lambda>f. if ip then CHR ''+'' # f else f) fulls
      \<and> (\<forall>f \<in> set fulls. \<exists>b. f = cd @ ld @ b \<and> length b = nat r \<and> set b \<subseteq> set ''0123456789'')
      \<and> (u \<longrightarrow> distinct fulls)
      \<and> (0 \<le> limit \<longrightarrow> int (length res) = limit)"
proof -
  let ?fmt = "\<lambda>f. if ip then CHR ''+'' # f else f"
  let ?ok = "\<lambda>f. \<exists>b. f = cd @ ld @ b \<and> length b = nat r \<and> set b \<subseteq> set ''0123456789''"
  let ?I = "\<lambda>(pos::nat) rs seen. \<exists>fulls. rs = map ?fmt fulls \<and> (\<forall>f \<in> set fulls. ?ok f)
      \<and> (u \<longrightarrow> distinct fulls \<and> set fulls = seen) \<and> (0 \<le> limit \<longrightarrow> int (length rs) \<le> limit)"
  have init: "?I 0 [] {}" by simp
  have collision: "?I (pos + nat r) rs seen" if "?I pos rs seen" for pos rs seen
    using that .
  have append: "?I (pos + nat r) (rs @ [?fmt (cd @ ld @ number_body rng pos r)])
      (if u then insert (cd @ ld @ number_body rng pos r) seen else seen)"
    if inv: "?I pos rs seen" and guard: "int (length rs) < limit"
      and new: "\<not> (u \<and> cd @ ld @ number_body rng pos r \<in> seen)" for pos rs seen
  proof -
    let ?full = "cd @ ld @ number_body rng pos r"
    from inv obtain fulls where fulls: "rs = map ?fmt fulls" "\<forall>f \<in> set fulls. ?ok f"
      "u \<longrightarrow> distinct fulls \<and> set fulls = seen" by blast
    have "?ok ?full" using length_number_body set_number_body by blast
    with fulls(2) have 2: "\<forall>f \<in> set (fulls @ [?full]). ?ok f" by simp
    from fulls(1) have 1: "rs @ [?fmt ?full] = map ?fmt (fulls @ [?full])" by simp
    from fulls(3) new have 3: "u \<longrightarrow> distinct (fulls @ [?full])
        \<and> set (fulls @ [?full]) = (if u then insert ?full seen else seen)" by auto
    from guard have 4: "0 \<le> limit \<longrightarrow> int (length (rs @ [?fmt ?full])) \<le> limit" by simp
    from 1 2 3 4 show ?thesis by blast
  qed
  from generate_loop_invariant [where I = ?I, OF ret init collision append]
  obtain fulls where "res = map ?fmt fulls" "\<forall>f \<in> set fulls. ?ok f" "u \<longrightarrow> distinct fulls"
    "0 \<le> limit \<longrightarrow> int (length res) \<le> limit" "\<not> int (length res) < limit"
    by auto
  then show ?thesis by (intro exI [of _ fulls]) auto
qed

section \<open>Validation\<close>

lemma generate_valid:
  "valid_config total_length country_code local_code limit unique \<Longrightarrow>
   generate_phone_numbers rng total_length country_code local_code limit include_plus unique =
   map_option Inr
     (generate_loop rng (lstrip ''+'' (strip country_code)) (strip local_code)
        (remaining_length_of total_length country_code local_code) limit include_plus unique
        0 [] {})"
  by (auto simp: valid_config_def generate_phone_numbers_def remaining_length_of_def Let_def)

lemma generate_invalid:
  "\<not> valid_config total_length country_code local_code limit unique \<Longrightarrow>
   \<exists>e. generate_phone_numbers rng total_length country_code local_code limit include_plus unique
     = Some (Inl e)"
  by (auto simp: valid_config_def generate_phone_numbers_def remaining_length_of_def Let_def)

lemma generate_Inr_valid:
  "generate_phone_numbers rng total_length country_code local_code limit include_plus unique
     = Some (Inr rs) \<Longrightarrow>
   valid_config total_length country_code local_code limit unique"
  using generate_invalid [of total_length country_code local_code limit unique rng include_plus]
  by auto

section \<open>Results of the generator\<close>

lemma isdigit_not_plus: "isdigit cd \<Longrightarrow> \<not> prefix ''+'' (cd @ x)"
  by (cases cd) (auto simp: isdigit_def plus_not_digit)

lemma without_separator_format:
  "isdigit cd \<Longrightarrow>
   without_separator (if ip then CHR ''+'' # cd @ x else cd @ x) = cd @ x"
  using isdigit_not_plus [of cd x] by (simp add: without_separator_def)

lemma prefix_plus_format:
  "isdigit cd \<Longrightarrow> prefix ''+'' (if ip then CHR ''+'' # cd @ x else cd @ x) \<longleftrightarrow> ip"
  using isdigit_not_plus [of cd x] by simp

lemma generate_results:
  assumes ret: "generate_phone_numbers rng total_length country_code local_code limit
      include_plus unique = Some (Inr results)"
  shows "\<exists>fulls.
      results = map (\<lambda>f. if include_plus then CHR ''+'' # f else f) fulls
    \<and> map without_separator results = fulls
    \<and> (\<forall>s \<in> set results. prefix ''+'' s \<longleftrightarrow> include_plus)
    \<and> (\<forall>f \<in> set fulls. \<exists>b. f = lstrip ''+'' (strip country_code) @ strip local_code @ b
          \<and> length b = nat (remaining_length_of total_length country_code local_code)
          \<and> set b \<subseteq> set ''0123456789'')
    \<and> (unique \<longrightarrow> distinct fulls)
    \<and> (0 \<le> limit \<longrightarrow> int (length results) = limit)"
proof -
  let ?cd = "lstrip ''+'' (strip country_code)"
  let ?ld = "strip local_code"
  let ?r = "remaining_length_of total_length country_code local_code"
  let ?fmt = "\<lambda>f. if include_plus then CHR ''+'' # f else f"
  from ret have valid: "valid_config total_length country_code local_code limit unique"
    by (rule generate_Inr_valid)
  then have cd: "isdigit ?cd" by (simp add: valid_config_def)
  from ret generate_valid [OF valid, of rng include_plus]
  have "generate_loop rng ?cd ?ld ?r limit include_plus unique 0 [] {} = Some results"
    by auto
  from generate_loop_results [OF this] obtain fulls
    where fulls: "results = map ?fmt fulls"
      and ok: "\<forall>f \<in> set fulls. \<exists>b. f = ?cd @ ?ld @ b \<and> length b = nat ?r \<and> set b \<subseteq> set ''0123456789''"
      and rest: "unique \<longrightarrow> distinct fulls" "0 \<le> limit \<longrightarrow> int (length results) = limit"
    by blast
  have strip: "without_separator (?fmt f) = f" and plus: "prefix ''+'' (?fmt f) \<longleftrightarrow> include_plus"
    if "f \<in> set fulls" for f
  proof -
    from ok that obtain b where "f = ?cd @ ?ld @ b" by blast
    then show "without_separator (?fmt f) = f" "prefix ''+'' (?fmt f) \<longleftrightarrow> include_plus"
      using without_separator_format [OF cd, of include_plus "?ld @ b"]
        prefix_plus_format [OF cd, of include_plus "?ld @ b"] by (auto split: if_splits)
  qed
  from strip have "map without_separator results = fulls"
    unfolding fulls by (simp add: map_idI)
  moreover from plus have "\<forall>s \<in> set results. prefix ''+'' s \<longleftrightarrow> include_plus"
    unfolding fulls by auto
  ultimately show ?thesis using fulls ok rest by blast
qed

lemma generate_returns:
  assumes valid: "valid_config total_length country_code local_code limit unique"
  shows "(\<exists>results. generate_phone_numbers rng total_length country_code local_code limit
            include_plus unique = Some (Inr results)) \<longleftrightarrow>
         (unique \<longrightarrow> (\<exists>n. limit \<le> int (card (set (bodies rng
            (remaining_length_of total_length country_code local_code) n)))))"
proof -
  have "(\<exists>results. generate_phone_numbers rng total_length country_code local_code limit
            include_plus unique = Some (Inr results)) \<longleftrightarrow>
        (\<exists>res. generate_loop rng (lstrip ''+'' (strip country_code)) (strip local_code)
            (remaining_length_of total_length country_code local_code) limit include_plus unique
            0 [] {} = Some res)"
    unfolding generate_valid [OF valid] by auto
  then show ?thesis by (simp only: generate_loop_returns_iff)
qed

text \<open>
  A count that is not positive: the guard of the loop fails at once, and the result is
  the empty list.
\<close>

lemma generate_nonpositive_count:
  assumes valid: "valid_config total_length country_code local_code limit unique"
    and count: "limit \<le> 0"
  shows "generate_phone_numbers rng total_length country_code local_code limit include_plus
      unique = Some (Inr [])"
proof -
  from count have "\<not> int (length ([]::string list)) < limit" by simp
  then show ?thesis by (simp add: generate_valid [OF valid] generate_loop_done)
qed

subsection \<open>A source that never yields a second body\<close>

lemma number_body_constant:
  "number_body (constant_source d) pos r = replicate (nat r) (''0123456789'' ! (d mod 10))"
  by (simp add: number_body_def choice_def constant_source_def map_replicate_const)

lemma card_bodies_constant: "card (set (bodies (constant_source d) r n)) \<le> 1"
proof -
  have "set (bodies (constant_source d) r n) \<subseteq> {replicate (nat r) (''0123456789'' ! (d mod 10))}"
    by (auto simp: bodies_def number_body_constant)
  then have "card (set (bodies (constant_source d) r n))
      \<le> card {replicate (nat r) (''0123456789'' ! (d mod 10))}"
    by (intro card_mono) auto
  then show ?thesis by simp
qed

lemma generate_constant_source_diverges:
  assumes valid: "valid_config total_length country_code local_code limit True"
    and limit: "2 \<le> limit"
  shows "generate_phone_numbers (constant_source d) total_length country_code local_code limit
      include_plus True = None"
proof -
  let ?g = "generate_phone_numbers (constant_source d) total_length country_code local_code limit
      include_plus True"
  have "\<not> (\<exists>n. limit \<le> int (card (set (bodies (constant_source d)
      (remaining_length_of total_length country_code local_code) n))))"
  proof
    assume "\<exists>n. limit \<le> int (card (set (bodies (constant_source d)
      (remaining_length_of total_length country_code local_code) n)))"
    then obtain n where "limit \<le> int (card (set (bodies (constant_source d)
      (remaining_length_of total_length country_code local_code) n)))" ..
    with card_bodies_constant [of d "remaining_length_of total_length country_code local_code" n]
      limit show False by simp
  qed
  with generate_returns [OF valid, of "constant_source d" include_plus]
  have no_list: "\<And>results. ?g \<noteq> Some (Inr results)" by simp
  have no_error: "\<And>e. ?g \<noteq> Some (Inl e)" by (simp add: generate_valid [OF valid])
  show ?thesis
  proof (cases ?g)
    case None
    then show ?thesis .
  next
    case (Some x)
    then show ?thesis using no_list no_error by (cases x) auto
  qed
qed

section \<open>The reader on written files\<close>

text \<open>
  The four special characters are different, the input of the reader is known for
  each kind of character, and the machine reads back a field that the writer wrote,
  quoted or not, when the field fits the limit of the reader.
\<close>

lemmas csv_chars = delimiter_def quotechar_def CR_def LF_def lineterminator_def

lemmas reader_steps = parse_process_char_def start_field_def is_newline_def after_line_def
  parse_save_field_def parse_add_char_def parse_reset_def

lemma chars_distinct:
  "CR \<noteq> LF" "quotechar \<noteq> CR" "quotechar \<noteq> LF" "delimiter \<noteq> CR" "delimiter \<noteq> LF"
  "delimiter \<noteq> quotechar" "LF \<noteq> CR" "CR \<noteq> quotechar" "LF \<noteq> quotechar"
  "CR \<noteq> delimiter" "LF \<noteq> delimiter" "quotechar \<noteq> delimiter"
  by (simp_all add: csv_chars)

lemma field_limit_positive:
  "0 < field_limit" "\<not> field_limit \<le> 0" "Suc 0 \<le> field_limit" "field_limit \<noteq> 0"
  by (simp_all add: field_limit_def)

lemma reader_input_plain:
  "c \<noteq> CR \<Longrightarrow> c \<noteq> LF \<Longrightarrow> cs \<noteq> [] \<Longrightarrow> reader_input (c # cs) = Chr c # reader_input cs"
  by simp

lemma reader_input_LF: "reader_input (LF # cs) = Chr LF # EOL # reader_input cs"
  by simp

lemma reader_input_CR_LF: "reader_input (CR # LF # cs) = Chr CR # Chr LF # EOL # reader_input cs"
  by (simp add: csv_chars)

lemma reader_input_CR:
  "cs \<noteq> [] \<Longrightarrow> hd cs \<noteq> LF \<Longrightarrow> reader_input (CR # cs) = Chr CR # EOL # reader_input cs"
  by (cases cs) (simp_all add: csv_chars)

lemma read_end_of_record:
  "state r = IN_FIELD \<or> state r = QUOTE_IN_QUOTED_FIELD \<Longrightarrow>
   read_records r (reader_input (CR # LF # rest)) =
   map_option ((#) (fields_r r @ [field r])) (read_records parse_reset (reader_input rest))"
  by (auto simp: reader_input_CR_LF reader_steps chars_distinct simp del: reader_input.simps)

text \<open>
  A field that the writer left unquoted is read back when it fits the limit, and is
  the error of the reader when it does not.
\<close>

lemma read_unquoted:
  "\<forall>c \<in> set p. \<not> needs_quoting c \<Longrightarrow> length f \<le> field_limit \<Longrightarrow>
   read_records \<lparr>state = IN_FIELD, fields_r = fs, field = f\<rparr> (reader_input (p @ CR # LF # rest)) =
   (if length f + length p \<le> field_limit
    then map_option ((#) (fs @ [f @ p])) (read_records parse_reset (reader_input rest))
    else None)"
proof (induction p arbitrary: f)
  case Nil
  then show ?case by (simp add: read_end_of_record del: reader_input.simps)
next
  case (Cons c p)
  from Cons.prems have c: "c \<noteq> CR" "c \<noteq> LF" "c \<noteq> delimiter" "c \<noteq> quotechar"
    by (auto simp: needs_quoting_def lineterminator_def)
  show ?case
  proof (cases "length f < field_limit")
    case False
    with c show ?thesis
      by (simp add: reader_input_plain reader_steps del: reader_input.simps)
  next
    case True
    with c have "read_records \<lparr>state = IN_FIELD, fields_r = fs, field = f\<rparr>
          (reader_input ((c # p) @ CR # LF # rest))
        = read_records \<lparr>state = IN_FIELD, fields_r = fs, field = f @ [c]\<rparr>
          (reader_input (p @ CR # LF # rest))"
      by (simp add: reader_input_plain reader_steps del: reader_input.simps)
    also from Cons.prems True have "\<dots> =
        (if length (f @ [c]) + length p \<le> field_limit
         then map_option ((#) (fs @ [(f @ [c]) @ p])) (read_records parse_reset (reader_input rest))
         else None)"
      by (intro Cons.IH) simp_all
    finally show ?thesis by simp
  qed
qed

text \<open>The same for a field that the writer quoted, whatever its characters.\<close>

lemma read_quoted:
  "length f \<le> field_limit \<Longrightarrow>
   read_records \<lparr>state = IN_QUOTED_FIELD, fields_r = fs, field = f\<rparr>
     (reader_input (join_append_data p @ quotechar # CR # LF # rest)) =
   (if length f + length p \<le> field_limit
    then map_option ((#) (fs @ [f @ p])) (read_records parse_reset (reader_input rest))
    else None)"
proof (induction p arbitrary: f)
  case Nil
  have "read_records \<lparr>state = IN_QUOTED_FIELD, fields_r = fs, field = f\<rparr>
      (reader_input (quotechar # CR # LF # rest))
    = read_records \<lparr>state = QUOTE_IN_QUOTED_FIELD, fields_r = fs, field = f\<rparr>
      (reader_input (CR # LF # rest))"
    by (simp add: reader_input_plain reader_steps chars_distinct del: reader_input.simps)
  with Nil show ?case
    by (simp add: read_end_of_record join_append_data_def del: reader_input.simps)
next
  case (Cons c p)
  let ?tail = "join_append_data p @ quotechar # CR # LF # rest"
  let ?next = "if length f < field_limit
      then read_records \<lparr>state = IN_QUOTED_FIELD, fields_r = fs, field = f @ [c]\<rparr>
        (reader_input ?tail)
      else None"
  have tail: "?tail \<noteq> []" by simp
  have step: "read_records \<lparr>state = IN_QUOTED_FIELD, fields_r = fs, field = f\<rparr>
      (reader_input (join_append_data (c # p) @ quotechar # CR # LF # rest)) = ?next"
  proof (cases "c = quotechar")
    case True
    note q = chars_distinct(2,3)
    have "reader_input (join_append_data (c # p) @ quotechar # CR # LF # rest)
        = Chr quotechar # Chr quotechar # reader_input ?tail"
      using True q tail by (simp add: join_append_data_def reader_input_plain del: reader_input.simps)
    then show ?thesis using True by (simp add: reader_steps)
  next
    case False
    then have data: "join_append_data (c # p) @ quotechar # CR # LF # rest = c # ?tail"
      by (simp add: join_append_data_def)
    consider "c = LF" | "c = CR" "hd ?tail = LF" | "c = CR" "hd ?tail \<noteq> LF" | "c \<noteq> CR" "c \<noteq> LF"
      by blast
    then show ?thesis
    proof cases
      case 1
      then show ?thesis unfolding data using False
        by (simp add: reader_input_LF reader_steps del: reader_input.simps)
    next
      case 2
      then obtain t where "?tail = LF # t" using tail by (cases ?tail) auto
      then have "reader_input (c # ?tail) = Chr CR # reader_input ?tail"
        using 2 by (simp add: chars_distinct)
      then show ?thesis unfolding data using False 2
        by (simp add: reader_steps chars_distinct del: reader_input.simps)
    next
      case 3
      then show ?thesis unfolding data using False tail
        by (simp add: reader_input_CR reader_steps chars_distinct del: reader_input.simps)
    next
      case 4
      then show ?thesis unfolding data using False tail
        by (simp add: reader_input_plain reader_steps del: reader_input.simps)
    qed
  qed
  show ?case
  proof (cases "length f < field_limit")
    case False
    with step show ?thesis by simp
  next
    case True
    with step have "read_records \<lparr>state = IN_QUOTED_FIELD, fields_r = fs, field = f\<rparr>
        (reader_input (join_append_data (c # p) @ quotechar # CR # LF # rest))
      = read_records \<lparr>state = IN_QUOTED_FIELD, fields_r = fs, field = f @ [c]\<rparr>
        (reader_input ?tail)" by simp
    also from True have "\<dots> =
        (if length (f @ [c]) + length p \<le> field_limit
         then map_option ((#) (fs @ [(f @ [c]) @ p])) (read_records parse_reset (reader_input rest))
         else None)"
      by (intro Cons.IH) simp
    finally show ?thesis by simp
  qed
qed

lemma read_open_quote:
  "read_records parse_reset (reader_input (quotechar # cs @ quotechar # CR # LF # rest)) =
   read_records \<lparr>state = IN_QUOTED_FIELD, fields_r = [], field = []\<rparr>
     (reader_input (cs @ quotechar # CR # LF # rest))"
  by (simp add: reader_input_plain reader_steps chars_distinct del: reader_input.simps)

lemma read_row:
  "read_records parse_reset (reader_input (writerow [p] @ rest)) =
   (if length p \<le> field_limit
    then map_option ((#) [p]) (read_records parse_reset (reader_input rest))
    else None)"
proof -
  consider (empty) "p = []" | (quoted) "p \<noteq> []" "list_ex needs_quoting p"
    | (plain) "p \<noteq> []" "\<not> list_ex needs_quoting p"
    by blast
  then show ?thesis
  proof cases
    case empty
    have "writerow [p] @ rest = quotechar # join_append_data [] @ quotechar # CR # LF # rest"
      using empty by (simp add: writerow_def join_append_data_def lineterminator_def)
    then show ?thesis
      using read_open_quote [of "join_append_data []" rest] read_quoted [of "[]" "[]" "[]" rest] empty
      by simp
  next
    case quoted
    then have "writerow [p] @ rest = quotechar # join_append_data p @ quotechar # CR # LF # rest"
      by (simp add: writerow_def join_append_def lineterminator_def)
    then show ?thesis
      using read_open_quote [of "join_append_data p" rest] read_quoted [of "[]" "[]" p rest]
      by simp
  next
    case plain
    then obtain c cs where p: "p = c # cs" by (cases p) auto
    from plain(2) have no: "\<forall>c \<in> set p. \<not> needs_quoting c" by (simp add: list_ex_iff)
    with p have c: "c \<noteq> CR" "c \<noteq> LF" "c \<noteq> delimiter" "c \<noteq> quotechar"
      by (auto simp: needs_quoting_def lineterminator_def)
    from plain have "writerow [p] @ rest = c # cs @ CR # LF # rest"
      by (simp add: writerow_def join_append_def lineterminator_def p)
    moreover from c have "read_records parse_reset (reader_input (c # cs @ CR # LF # rest))
        = read_records \<lparr>state = IN_FIELD, fields_r = [], field = [c]\<rparr>
            (reader_input (cs @ CR # LF # rest))"
      by (simp add: reader_input_plain reader_steps field_limit_positive del: reader_input.simps)
    moreover from no p have "read_records \<lparr>state = IN_FIELD, fields_r = [], field = [c]\<rparr>
            (reader_input (cs @ CR # LF # rest))
        = (if length [c] + length cs \<le> field_limit
           then map_option ((#) ([] @ [[c] @ cs])) (read_records parse_reset (reader_input rest))
           else None)"
      by (intro read_unquoted) (simp_all add: field_limit_positive)
    ultimately show ?thesis using p by simp
  qed
qed

lemma read_rows:
  "read_records parse_reset (reader_input (writerows (map (\<lambda>p. [p]) ps) @ rest)) =
   (if list_all (\<lambda>p. length p \<le> field_limit) ps
    then map_option ((@) (map (\<lambda>p. [p]) ps)) (read_records parse_reset (reader_input rest))
    else None)"
proof (induction ps)
  case Nil
  show ?case
    by (cases "read_records parse_reset (reader_input rest)") (simp_all add: writerows_def)
next
  case (Cons p ps)
  let ?rest = "read_records parse_reset (reader_input rest)"
  have "writerows (map (\<lambda>p. [p]) (p # ps)) @ rest
      = writerow [p] @ (writerows (map (\<lambda>p. [p]) ps) @ rest)"
    by (simp add: writerows_def)
  then have "read_records parse_reset (reader_input (writerows (map (\<lambda>p. [p]) (p # ps)) @ rest))
      = (if length p \<le> field_limit
         then map_option ((#) [p])
           (read_records parse_reset (reader_input (writerows (map (\<lambda>p. [p]) ps) @ rest)))
         else None)"
    by (simp only: read_row)
  also have "\<dots> = (if length p \<le> field_limit
         then map_option ((#) [p])
           (if list_all (\<lambda>p. length p \<le> field_limit) ps
            then map_option ((@) (map (\<lambda>p. [p]) ps)) ?rest else None)
         else None)"
    by (simp only: Cons.IH)
  also have "\<dots> = (if list_all (\<lambda>p. length p \<le> field_limit) (p # ps)
      then map_option ((@) (map (\<lambda>p. [p]) (p # ps))) ?rest else None)"
    by (cases ?rest) simp_all
  finally show ?case .
qed

lemma csv_reader_written:
  "csv_reader (writerow [header] @ writerows (map (\<lambda>p. [p]) ps)) =
   (if length header \<le> field_limit \<and> list_all (\<lambda>p. length p \<le> field_limit) ps
    then Some ([header] # map (\<lambda>p. [p]) ps) else None)"
proof -
  have "read_records parse_reset (reader_input (writerows (map (\<lambda>p. [p]) ps) @ []))
      = (if list_all (\<lambda>p. length p \<le> field_limit) ps then Some (map (\<lambda>p. [p]) ps) else None)"
    unfolding read_rows by (simp add: parse_reset_def)
  then show ?thesis
    unfolding csv_reader_def read_row by simp
qed

text \<open>Writing and reading back, when the file can be opened and when it cannot.\<close>

lemma write_then_read_opened:
  assumes "open_error fs filename = None"
  shows "write_then_read phone_numbers filename fs =
     Inr (if list_all (\<lambda>p. length p \<le> field_limit) phone_numbers
          then Some ([''Phone Number''] # map (\<lambda>p. [p]) phone_numbers) else None)"
proof -
  have "length ''Phone Number'' \<le> field_limit" by (simp add: field_limit_def)
  with assms show ?thesis
    by (simp add: write_then_read_def save_to_csv_def read_csv_def csv_reader_written
        del: list.size)
qed

lemma write_then_read_refused:
  assumes "open_error fs filename = Some e"
  shows "save_to_csv phone_numbers filename fs = Inl e"
    and "write_then_read phone_numbers filename fs = Inl e"
  using assms by (simp_all add: write_then_read_def save_to_csv_def)

text \<open>A number of 131073 digits is over the limit: the reader refuses its file.\<close>

lemma long_field_refused:
  "write_then_read [replicate 131073 CHR ''1''] ''phone_numbers.csv'' empty_filesystem = Inr None"
proof -
  have opened: "open_error empty_filesystem ''phone_numbers.csv'' = None"
    by (simp add: open_error_def empty_filesystem_def)
  have "\<not> list_all (\<lambda>p. length p \<le> field_limit) [replicate 131073 CHR ''1'']"
    by (simp add: field_limit_def)
  with write_then_read_opened [OF opened, of "[replicate 131073 CHR ''1'']"]
  show ?thesis by (simp only: if_False)
qed

text \<open>
  The generator returns such a number: total length 131073, country code \<open>1\<close>, no
  separator, on the source that always draws the digit 1.
\<close>

lemma generate_long_number:
  "generate_phone_numbers (constant_source 1) 131073 ''1'' '''' 1 False False
     = Some (Inr [replicate 131073 CHR ''1''])"
proof -
  have country: "lstrip ''+'' (strip ''1'') = ''1''" and local: "strip '''' = ''''"
    and digits: "isdigit ''1''"
    by code_simp+
  have r: "remaining_length_of 131073 ''1'' '''' = 131072"
    by (simp add: remaining_length_of_def country local)
  have valid: "valid_config 131073 ''1'' '''' 1 False"
    unfolding valid_config_def country local r using digits by (simp only: simp_thms) simp
  have body: "''1'' @ '''' @ number_body (constant_source 1) 0 131072 = replicate 131073 CHR ''1''"
  proof -
    have "(131073::nat) = Suc 131072" by simp
    then have "replicate 131073 CHR ''1'' = CHR ''1'' # replicate 131072 CHR ''1''"
      by (simp only: replicate_Suc)
    moreover have "''0123456789'' ! (1 mod 10) = CHR ''1''" by simp
    moreover have "nat 131072 = 131072" by simp
    ultimately show ?thesis by (simp only: number_body_constant append_Nil append_Cons)
  qed
  have start: "int (length ([]::string list)) < 1" by simp
  have new: "\<not> (False \<and> ''1'' @ '''' @ number_body (constant_source 1) 0 131072 \<in> {})"
    by (simp only: simp_thms)
  have stop: "\<not> int (length [replicate 131073 CHR ''1'']) < 1"
    by simp
  have "generate_loop (constant_source 1) ''1'' '''' 131072 1 False False 0 [] {}
      = generate_loop (constant_source 1) ''1'' '''' 131072 1 False False (0 + nat 131072)
          ([] @ [if False then CHR ''+'' # ''1'' @ '''' @ number_body (constant_source 1) 0 131072
                 else ''1'' @ '''' @ number_body (constant_source 1) 0 131072])
          (if False then insert (''1'' @ '''' @ number_body (constant_source 1) 0 131072) {} else {})"
    using start new by (rule generate_loop_append)
  also have "\<dots> = generate_loop (constant_source 1) ''1'' '''' 131072 1 False False (0 + nat 131072)
      [replicate 131073 CHR ''1''] {}"
    unfolding body by (simp only: if_False append_Nil)
  also have "\<dots> = Some [replicate 131073 CHR ''1'']"
    using stop by (rule generate_loop_done)
  finally show ?thesis
    by (simp only: generate_valid [OF valid] country local r option.map)
qed

section \<open>The claims\<close>

text \<open>
  Claim C1, as amended. For every valid configuration, \<^verbatim>\<open>generate_phone_numbers\<close>
  never fails, and every list that it returns has exactly \<open>count\<close> strings when the
  count is not negative, and none when it is. It returns such a list exactly when
  \<open>unique\<close> is false or some number of iterations draws at least \<open>count\<close>
  distinct bodies from the random source; otherwise it does not return. The claim as
  stated has a list of \<open>count\<close> strings returned for every valid configuration.
\<close>

theorem generate_returns_count:
  assumes valid: "valid_config total_length country_code local_code limit unique"
  shows "(\<forall>e. generate_phone_numbers rng total_length country_code local_code limit
              include_plus unique \<noteq> Some (Inl e))
       \<and> (\<forall>results. generate_phone_numbers rng total_length country_code local_code limit
              include_plus unique = Some (Inr results) \<longrightarrow>
              int (length results) = max 0 limit)
       \<and> ((\<exists>results. generate_phone_numbers rng total_length country_code local_code limit
              include_plus unique = Some (Inr results) \<and> int (length results) = max 0 limit)
          \<longleftrightarrow> (unique \<longrightarrow> (\<exists>n. limit \<le> int (card (set (bodies rng
                  (remaining_length_of total_length country_code local_code) n))))))"
proof -
  let ?g = "generate_phone_numbers rng total_length country_code local_code limit
      include_plus unique"
  have no_error: "\<forall>e. ?g \<noteq> Some (Inl e)"
    by (simp add: generate_valid [OF valid])
  have count: "int (length results) = max 0 limit" if ret: "?g = Some (Inr results)" for results
  proof (cases "0 \<le> limit")
    case True
    with generate_results [OF ret] show ?thesis by auto
  next
    case False
    then have "limit \<le> 0" by simp
    from generate_nonpositive_count [OF valid this, of rng include_plus] ret False
    show ?thesis by simp
  qed
  from count generate_returns [OF valid, of rng include_plus]
  have "(\<exists>results. ?g = Some (Inr results) \<and> int (length results) = max 0 limit)
      \<longleftrightarrow> (unique \<longrightarrow> (\<exists>n. limit \<le> int (card (set (bodies rng
                  (remaining_length_of total_length country_code local_code) n)))))"
    by blast
  with no_error count show ?thesis by blast
qed

text \<open>
  Two valid configurations of one random digit: a count of \<open>-3\<close>, for which the
  list is empty, and three unique numbers on a source that always draws the digit 5,
  for which no list is returned.
\<close>

theorem generate_returns_count_counterexample:
  "valid_config 2 ''1'' '''' (- 3) True
   \<and> generate_phone_numbers counting_source 2 ''1'' '''' (- 3) True True = Some (Inr [])
   \<and> valid_config 2 ''1'' '''' 3 True
   \<and> generate_phone_numbers (constant_source 5) 2 ''1'' '''' 3 True True = None"
proof -
  have negative: "valid_config 2 ''1'' '''' (- 3) True" by code_simp
  have empty: "generate_phone_numbers counting_source 2 ''1'' '''' (- 3) True True = Some (Inr [])"
    by code_simp
  have valid: "valid_config 2 ''1'' '''' 3 True" by code_simp
  from generate_constant_source_diverges [OF valid, of 5 True] negative empty valid
  show ?thesis by simp
qed

text \<open>
  The configuration \<open>total_length = 3\<close>, \<open>country_code = +1\<close>, no local code,
  two unique numbers, on the source that counts.
\<close>

theorem generate_returns_count_witness:
  "valid_config 3 ''+1'' '''' 2 True
   \<and> 2 \<le> int (card (set (bodies counting_source (remaining_length_of 3 ''+1'' '''') 2)))
   \<and> generate_phone_numbers counting_source 3 ''+1'' '''' 2 True True
       = Some (Inr [''+101'', ''+123''])
   \<and> int (length [''+101'', ''+123'']) = max 0 2"
proof -
  have valid: "valid_config 3 ''+1'' '''' 2 True" by code_simp
  have source: "2 \<le> int (card (set (bodies counting_source (remaining_length_of 3 ''+1'' '''') 2)))"
    by code_simp
  have run: "generate_phone_numbers counting_source 3 ''+1'' '''' 2 True True
      = Some (Inr [''+101'', ''+123''])" by code_simp
  from generate_returns_count [OF valid, of counting_source True, THEN conjunct2, THEN conjunct1]
    run
  have "int (length [''+101'', ''+123'']) = max 0 2" by blast
  with valid source run show ?thesis by blast
qed

text \<open>
  Claim C2. When \<open>unique\<close> is true, the list that \<^verbatim>\<open>generate_phone_numbers\<close>
  returns is pairwise distinct: the results at two different indices differ.
  Distinctness is decided on the unformatted digit string, before the separator is
  added: the digit strings of the results are pairwise distinct too, and every result
  is its digit string with the separator put in front when \<open>include_plus\<close> is set.
  A call that returns a list has passed every check, so its configuration is valid.
\<close>

theorem unique_results_distinct:
  assumes ret: "generate_phone_numbers rng total_length country_code local_code limit
      include_plus True = Some (Inr results)"
  shows "(\<forall>i < length results. \<forall>j < length results. i \<noteq> j \<longrightarrow> results ! i \<noteq> results ! j)
       \<and> (\<forall>i < length results. \<forall>j < length results. i \<noteq> j \<longrightarrow>
            without_separator (results ! i) \<noteq> without_separator (results ! j))
       \<and> results = map (\<lambda>full_number. if include_plus then CHR ''+'' # full_number
                                     else full_number)
                      (map without_separator results)"
proof -
  from generate_results [OF ret] obtain fulls
    where fulls: "results = map (\<lambda>f. if include_plus then CHR ''+'' # f else f) fulls"
      and strip: "map without_separator results = fulls"
      and dist: "distinct fulls"
    by blast
  from dist strip have unformatted: "distinct (map without_separator results)" by simp
  then have formatted: "distinct results" by (simp add: distinct_map)
  from formatted have "\<forall>i < length results. \<forall>j < length results. i \<noteq> j \<longrightarrow>
      results ! i \<noteq> results ! j"
    by (simp add: nth_eq_iff_index_eq)
  moreover from unformatted have "\<forall>i < length results. \<forall>j < length results. i \<noteq> j \<longrightarrow>
      without_separator (results ! i) \<noteq> without_separator (results ! j)"
    by (simp add: distinct_conv_nth)
  moreover from fulls strip have "results =
      map (\<lambda>f. if include_plus then CHR ''+'' # f else f) (map without_separator results)"
    by simp
  ultimately show ?thesis by blast
qed

text \<open>Three unique numbers without separator, on the source that counts.\<close>

theorem unique_results_distinct_witness:
  "generate_phone_numbers counting_source 4 ''+4'' ''4'' 3 False True
       = Some (Inr [''4401'', ''4423'', ''4445''])
   \<and> ''4401'' \<noteq> ''4423'' \<and> ''4401'' \<noteq> ''4445'' \<and> ''4423'' \<noteq> ''4445''"
proof -
  have run: "generate_phone_numbers counting_source 4 ''+4'' ''4'' 3 False True
      = Some (Inr [''4401'', ''4423'', ''4445''])" by code_simp
  note distinct = unique_results_distinct [OF run, THEN conjunct1, rule_format]
  from distinct [of 0 1] have "''4401'' \<noteq> ''4423''" by simp
  moreover from distinct [of 0 2] have "''4401'' \<noteq> ''4445''" by simp
  moreover from distinct [of 1 2] have "''4423'' \<noteq> ''4445''" by simp
  ultimately show ?thesis using run by simp
qed

text \<open>
  Claim C3, as amended. For every valid configuration, every string that
  \<^verbatim>\<open>generate_phone_numbers\<close> returns, with the leading separator removed if there
  is one, has exactly \<open>total_length\<close> characters and is the validated country digits,
  then the local digits, then \<open>remaining_length\<close> decimal digits 0 to 9. Its
  characters are all accepted by \<^verbatim>\<open>str.isdigit\<close>, as the two codes are validated
  with; they are all decimal digits 0 to 9 exactly when those of the two validated
  codes are. The claim as stated has every returned string consist of digits only.
\<close>

theorem results_format:
  assumes ret: "generate_phone_numbers rng total_length country_code local_code limit
      include_plus unique = Some (Inr results)"
    and s: "s \<in> set results"
  shows "list_all isdigit_chr (without_separator s)
       \<and> int (length (without_separator s)) = total_length
       \<and> prefix (lstrip ''+'' (strip country_code) @ strip local_code) (without_separator s)
       \<and> int (length (drop (length (lstrip ''+'' (strip country_code) @ strip local_code))
                  (without_separator s)))
           = remaining_length_of total_length country_code local_code
       \<and> set (drop (length (lstrip ''+'' (strip country_code) @ strip local_code))
                  (without_separator s)) \<subseteq> set ''0123456789''
       \<and> (set (without_separator s) \<subseteq> set ''0123456789'' \<longleftrightarrow>
            set (lstrip ''+'' (strip country_code)) \<subseteq> set ''0123456789''
            \<and> set (strip local_code) \<subseteq> set ''0123456789'')"
proof -
  let ?cd = "lstrip ''+'' (strip country_code)"
  let ?ld = "strip local_code"
  let ?r = "remaining_length_of total_length country_code local_code"
  from ret have "valid_config total_length country_code local_code limit unique"
    by (rule generate_Inr_valid)
  then have cd: "list_all isdigit_chr ?cd" and ld: "list_all isdigit_chr ?ld" and r: "0 < ?r"
    by (auto simp: valid_config_def isdigit_def)
  from generate_results [OF ret] obtain fulls
    where strip: "map without_separator results = fulls"
      and ok: "\<forall>f \<in> set fulls. \<exists>b. f = ?cd @ ?ld @ b \<and> length b = nat ?r
          \<and> set b \<subseteq> set ''0123456789''"
    by blast
  from s strip have "without_separator s \<in> set fulls" by force
  with ok obtain b where b: "without_separator s = ?cd @ ?ld @ b" "length b = nat ?r"
    "set b \<subseteq> set ''0123456789''" by blast
  from b(3) have "list_all isdigit_chr b"
    using decimal_isdigit by (auto simp: list_all_iff)
  with cd ld b(1) have 1: "list_all isdigit_chr (without_separator s)" by simp
  from b(1,2) r have 2: "int (length (without_separator s)) = total_length"
    by (simp add: remaining_length_of_def)
  from b(1) have 3: "prefix (?cd @ ?ld) (without_separator s)" by simp
  from b(1) have body: "drop (length (?cd @ ?ld)) (without_separator s) = b" by simp
  from b(2) r have 4: "int (length (drop (length (?cd @ ?ld)) (without_separator s))) = ?r"
    unfolding body by simp
  from b(3) have 5: "set (drop (length (?cd @ ?ld)) (without_separator s)) \<subseteq> set ''0123456789''"
    unfolding body .
  from b(3) have 6: "set (without_separator s) \<subseteq> set ''0123456789'' \<longleftrightarrow>
      set ?cd \<subseteq> set ''0123456789'' \<and> set ?ld \<subseteq> set ''0123456789''"
    unfolding b(1) set_append by blast
  from 1 2 3 4 5 6 show ?thesis by blast
qed

text \<open>
  The country code of the one character superscript two, code point 178, is accepted
  by \<^verbatim>\<open>str.isdigit\<close>: the configuration is valid, and the number returned holds
  that character, which is not a decimal digit.
\<close>

theorem results_format_counterexample:
  "valid_config 3 [CHR 0xB2] '''' 1 True
   \<and> generate_phone_numbers counting_source 3 [CHR 0xB2] '''' 1 True True
       = Some (Inr [[CHR ''+'', CHR 0xB2, CHR ''0'', CHR ''1'']])
   \<and> without_separator [CHR ''+'', CHR 0xB2, CHR ''0'', CHR ''1''] = [CHR 0xB2, CHR ''0'', CHR ''1'']
   \<and> CHR 0xB2 \<notin> set ''0123456789''"
proof -
  have "valid_config 3 [CHR 0xB2] '''' 1 True" by code_simp
  moreover have "generate_phone_numbers counting_source 3 [CHR 0xB2] '''' 1 True True
       = Some (Inr [[CHR ''+'', CHR 0xB2, CHR ''0'', CHR ''1'']])" by code_simp
  moreover have "without_separator [CHR ''+'', CHR 0xB2, CHR ''0'', CHR ''1'']
      = [CHR 0xB2, CHR ''0'', CHR ''1'']" by code_simp
  moreover have "CHR 0xB2 \<notin> set ''0123456789''" by simp
  ultimately show ?thesis by blast
qed

text \<open>
  The example of the specification: total length 11, country code \<open>+1\<close>, local code
  \<open>415\<close>, three unique numbers with separator.
\<close>

theorem results_format_witness:
  "generate_phone_numbers counting_source 11 ''+1'' ''415'' 3 True True
     = Some (Inr [''+14150123456'', ''+14157890123'', ''+14154567890''])
   \<and> ''+14157890123'' \<in> set [''+14150123456'', ''+14157890123'', ''+14154567890'']
   \<and> set (lstrip ''+'' (strip ''+1'')) \<subseteq> set ''0123456789''
   \<and> set (strip ''415'') \<subseteq> set ''0123456789''
   \<and> set (without_separator ''+14157890123'') \<subseteq> set ''0123456789''
   \<and> list_all isdigit_chr (without_separator ''+14157890123'')
   \<and> int (length (without_separator ''+14157890123'')) = 11
   \<and> prefix (lstrip ''+'' (strip ''+1'') @ strip ''415'') (without_separator ''+14157890123'')"
proof -
  have run: "generate_phone_numbers counting_source 11 ''+1'' ''415'' 3 True True
      = Some (Inr [''+14150123456'', ''+14157890123'', ''+14154567890''])" by code_simp
  have mem: "''+14157890123'' \<in> set [''+14150123456'', ''+14157890123'', ''+14154567890'']"
    by simp
  have codes: "set (lstrip ''+'' (strip ''+1'')) \<subseteq> set ''0123456789''"
    "set (strip ''415'') \<subseteq> set ''0123456789''" by code_simp+
  from results_format [OF run mem] run mem codes show ?thesis by blast
qed

text \<open>
  Claim C4. When \<open>unique\<close> is true and the configuration is valid but for the
  count, with remaining length \<open>r\<close>, \<^verbatim>\<open>generate_phone_numbers\<close> fails with the
  capacity error exactly when \<open>limit > 10 ^ r\<close>, reporting the count, \<open>r\<close> and
  \<open>10 ^ r\<close>; when \<open>limit \<le> 10 ^ r\<close> the check passes and the call is the loop.
\<close>

theorem capacity_check:
  assumes total: "0 < total_length"
    and country: "isdigit (lstrip ''+'' (strip country_code))"
    and local: "strip local_code = [] \<or> isdigit (strip local_code)"
    and remaining: "0 < remaining_length_of total_length country_code local_code"
  shows "(10 ^ nat (remaining_length_of total_length country_code local_code) < limit \<longrightarrow>
            generate_phone_numbers rng total_length country_code local_code limit include_plus True
            = Some (Inl (CannotGenerateUnique limit
                (remaining_length_of total_length country_code local_code)
                (10 ^ nat (remaining_length_of total_length country_code local_code)))))
       \<and> (limit \<le> 10 ^ nat (remaining_length_of total_length country_code local_code) \<longrightarrow>
            generate_phone_numbers rng total_length country_code local_code limit include_plus True
            = map_option Inr
                (generate_loop rng (lstrip ''+'' (strip country_code)) (strip local_code)
                   (remaining_length_of total_length country_code local_code) limit include_plus
                   True 0 [] {}))
       \<and> ((\<exists>e. generate_phone_numbers rng total_length country_code local_code limit
                  include_plus True = Some (Inl e) \<and> kind_of e = CapacityExceeded)
            \<longleftrightarrow> 10 ^ nat (remaining_length_of total_length country_code local_code) < limit)"
  using assms
  by (auto simp: generate_phone_numbers_def remaining_length_of_def Let_def)

text \<open>
  One random digit: eleven numbers (\<open>10 ^ 1 + 1\<close>) are refused, ten are generated.
\<close>

theorem capacity_check_witness:
  "(0::int) < 2 \<and> isdigit (lstrip ''+'' (strip ''1'')) \<and> strip '''' = []
   \<and> 0 < remaining_length_of 2 ''1'' ''''
   \<and> (10::int) ^ nat (remaining_length_of 2 ''1'' '''') < 10 ^ 1 + 1
   \<and> generate_phone_numbers counting_source 2 ''1'' '''' (10 ^ 1 + 1) True True
       = Some (Inl (CannotGenerateUnique 11 1 10))
   \<and> kind_of (CannotGenerateUnique 11 1 10) = CapacityExceeded
   \<and> generate_phone_numbers counting_source 2 ''1'' '''' (10 ^ 1) True True
       = Some (Inr [''+10'', ''+11'', ''+12'', ''+13'', ''+14'', ''+15'', ''+16'', ''+17'',
                    ''+18'', ''+19''])"
proof -
  have total: "(0::int) < 2" by simp
  have country: "isdigit (lstrip ''+'' (strip ''1''))" by code_simp
  have local: "strip '''' = [] \<or> isdigit (strip '''')" by code_simp
  have remaining: "0 < remaining_length_of 2 ''1'' ''''" by code_simp
  have r: "remaining_length_of 2 ''1'' '''' = 1" by code_simp
  have run: "generate_phone_numbers counting_source 2 ''1'' '''' (10 ^ 1) True True
       = Some (Inr [''+10'', ''+11'', ''+12'', ''+13'', ''+14'', ''+15'', ''+16'', ''+17'',
                    ''+18'', ''+19''])" by code_simp
  have empty: "strip '''' = []" by code_simp
  from capacity_check [OF total country local remaining, of "10 ^ 1 + 1" counting_source True]
  have "generate_phone_numbers counting_source 2 ''1'' '''' (10 ^ 1 + 1) True True
       = Some (Inl (CannotGenerateUnique 11 1 10))"
    by (simp add: r)
  with total country empty remaining run show ?thesis by (simp add: r)
qed

text \<open>
  Claim C5, as amended. Validation removes every leading separator from the country
  code, after trimming whitespace, and then rejects a remainder that
  \<^verbatim>\<open>str.isdigit\<close> does not accept: a country code of any number of \<open>+\<close>
  followed by digits is validated as those digits, and the call is the one for the
  digits alone; a remainder that is empty or has a character that \<^verbatim>\<open>str.isdigit\<close>
  does not accept, such as a separator after the first digit, fails with the
  country-code error. The claim as stated has one separator removed and a country code
  with two of them rejected.
\<close>

theorem country_code_validation:
  assumes total: "0 < total_length"
  shows "(isdigit digits \<longrightarrow>
            lstrip ''+'' (strip (replicate n CHR ''+'' @ digits)) = digits
          \<and> generate_phone_numbers rng total_length (replicate n CHR ''+'' @ digits) local_code
              limit include_plus unique
            = generate_phone_numbers rng total_length digits local_code limit include_plus unique)
       \<and> (\<not> isdigit (lstrip ''+'' (strip country_code)) \<longrightarrow>
            generate_phone_numbers rng total_length country_code local_code limit include_plus
              unique = Some (Inl CountryCodeNotDigits))
       \<and> (CHR ''+'' \<in> set (lstrip ''+'' (strip country_code)) \<longrightarrow>
            generate_phone_numbers rng total_length country_code local_code limit include_plus
              unique = Some (Inl CountryCodeNotDigits))"
proof (intro conjI impI)
  assume digits: "isdigit digits"
  from lstrip_plus_digits [OF digits, of n]
  show 1: "lstrip ''+'' (strip (replicate n CHR ''+'' @ digits)) = digits" .
  from lstrip_plus_digits [OF digits, of 0] have 2: "lstrip ''+'' (strip digits) = digits"
    by simp
  show "generate_phone_numbers rng total_length (replicate n CHR ''+'' @ digits) local_code
      limit include_plus unique
    = generate_phone_numbers rng total_length digits local_code limit include_plus unique"
    by (simp only: generate_phone_numbers_def 1 2)
next
  assume "\<not> isdigit (lstrip ''+'' (strip country_code))"
  with total show "generate_phone_numbers rng total_length country_code local_code limit
      include_plus unique = Some (Inl CountryCodeNotDigits)"
    by (simp add: generate_phone_numbers_def)
next
  assume "CHR ''+'' \<in> set (lstrip ''+'' (strip country_code))"
  then have "\<not> isdigit (lstrip ''+'' (strip country_code))"
    using plus_not_digit by (auto simp: isdigit_def list_all_iff)
  with total show "generate_phone_numbers rng total_length country_code local_code limit
      include_plus unique = Some (Inl CountryCodeNotDigits)"
    by (simp add: generate_phone_numbers_def)
qed

text \<open>
  The country code \<open>++1\<close> is accepted: both separators are removed, and two
  numbers are generated.
\<close>

theorem country_code_validation_counterexample:
  "lstrip ''+'' (strip ''++1'') = ''1''
   \<and> generate_phone_numbers counting_source 3 ''++1'' '''' 2 True True
       = Some (Inr [''+101'', ''+123''])"
  by code_simp

text \<open>Two separators before a digit, and a separator between two digits.\<close>

theorem country_code_validation_witness:
  "(0::int) < 3 \<and> isdigit ''1''
   \<and> lstrip ''+'' (strip (replicate 2 CHR ''+'' @ ''1'')) = ''1''
   \<and> generate_phone_numbers counting_source 3 (replicate 2 CHR ''+'' @ ''1'') '''' 2 True True
       = generate_phone_numbers counting_source 3 ''1'' '''' 2 True True
   \<and> \<not> isdigit (lstrip ''+'' (strip ''1+2''))
   \<and> CHR ''+'' \<in> set (lstrip ''+'' (strip ''1+2''))
   \<and> generate_phone_numbers counting_source 3 ''1+2'' '''' 2 True True
       = Some (Inl CountryCodeNotDigits)"
proof -
  have total: "(0::int) < 3" by simp
  have digits: "isdigit ''1''" by code_simp
  have bad: "\<not> isdigit (lstrip ''+'' (strip ''1+2''))" by code_simp
  have plus: "CHR ''+'' \<in> set (lstrip ''+'' (strip ''1+2''))" by code_simp
  from country_code_validation [OF total, of "''1''" 2 counting_source "''''" 2 True True "''1+2''"]
    digits bad plus total
  show ?thesis by blast
qed

text \<open>
  Claim C6. \<^verbatim>\<open>generate_phone_numbers\<close> fails with an error of kind
  \<open>InvalidConfiguration\<close> whenever the total length is not positive or the
  remaining length, the total length less the lengths of the country digits and the
  local digits, is not positive. The error is the same for every random source: it is
  raised before anything is drawn or produced. Total length 3 with country code
  \<open>1\<close> and local code \<open>415\<close> fails, reporting the remaining length \<open>-1\<close>.
\<close>

theorem invalid_configuration:
  "(total_length \<le> 0 \<or> remaining_length_of total_length country_code local_code \<le> 0 \<longrightarrow>
      (\<exists>e. kind_of e = InvalidConfiguration
         \<and> (\<forall>rng. generate_phone_numbers rng total_length country_code local_code limit
               include_plus unique = Some (Inl e))))
   \<and> generate_phone_numbers rng' 3 ''1'' ''415'' limit' include_plus' unique'
       = Some (Inl (TotalLengthTooShort (- 1)))"
proof
  show "total_length \<le> 0 \<or> remaining_length_of total_length country_code local_code \<le> 0 \<longrightarrow>
      (\<exists>e. kind_of e = InvalidConfiguration
         \<and> (\<forall>rng. generate_phone_numbers rng total_length country_code local_code limit
               include_plus unique = Some (Inl e)))"
  proof
    assume bad: "total_length \<le> 0 \<or> remaining_length_of total_length country_code local_code \<le> 0"
    let ?cd = "lstrip ''+'' (strip country_code)"
    let ?ld = "strip local_code"
    let ?e = "if total_length \<le> 0 then TotalLengthNotPositive
        else if \<not> isdigit ?cd then CountryCodeNotDigits
        else if ?ld \<noteq> [] \<and> \<not> isdigit ?ld then LocalCodeNotDigits
        else TotalLengthTooShort (remaining_length_of total_length country_code local_code)"
    have "kind_of ?e = InvalidConfiguration" by simp
    moreover from bad have "\<forall>rng. generate_phone_numbers rng total_length country_code local_code
        limit include_plus unique = Some (Inl ?e)"
      by (auto simp: generate_phone_numbers_def remaining_length_of_def Let_def)
    ultimately show "\<exists>e. kind_of e = InvalidConfiguration
         \<and> (\<forall>rng. generate_phone_numbers rng total_length country_code local_code limit
               include_plus unique = Some (Inl e))" by blast
  qed
next
  have "strip ''1'' = ''1''" "strip ''415'' = ''415''" by code_simp+
  moreover have "isdigit ''1''" "isdigit ''415''" by code_simp+
  ultimately show "generate_phone_numbers rng' 3 ''1'' ''415'' limit' include_plus' unique'
       = Some (Inl (TotalLengthTooShort (- 1)))"
    by (simp add: generate_phone_numbers_def lstrip_def)
qed

text \<open>The configuration of the claim, and a total length of zero.\<close>

theorem invalid_configuration_witness:
  "remaining_length_of 3 ''1'' ''415'' \<le> 0
   \<and> generate_phone_numbers counting_source 3 ''1'' ''415'' 5 True True
       = Some (Inl (TotalLengthTooShort (- 1)))
   \<and> kind_of (TotalLengthTooShort (- 1)) = InvalidConfiguration
   \<and> generate_phone_numbers counting_source 0 ''1'' ''415'' 5 True True
       = Some (Inl TotalLengthNotPositive)"
proof -
  have short: "remaining_length_of 3 ''1'' ''415'' \<le> 0" by code_simp
  have run: "generate_phone_numbers counting_source 3 ''1'' ''415'' 5 True True
       = Some (Inl (TotalLengthTooShort (- 1)))" by code_simp
  have zero: "generate_phone_numbers counting_source 0 ''1'' ''415'' 5 True True
       = Some (Inl TotalLengthNotPositive)" by code_simp
  from invalid_configuration [of 3 "''1''" "''415''" 5 True True, THEN conjunct1] short
  obtain e where e: "kind_of e = InvalidConfiguration"
    "generate_phone_numbers counting_source 3 ''1'' ''415'' 5 True True = Some (Inl e)"
    by blast
  from e(2) run have "e = TotalLengthTooShort (- 1)" by simp
  with e(1) short run zero show ?thesis by simp
qed

text \<open>
  Claim C7, as amended. For a valid configuration, so under the feasibility
  precondition, the retry loop has no bound on its iterations and returns exactly
  when \<open>unique\<close> is false or some number of iterations draws at least \<open>limit\<close>
  distinct bodies from the random source; otherwise it runs forever. The claim as
  stated has the loop return for every random source.
\<close>

theorem loop_termination:
  assumes valid: "valid_config total_length country_code local_code limit unique"
  shows "((\<exists>results. generate_phone_numbers rng total_length country_code local_code limit
              include_plus unique = Some (Inr results))
          \<longleftrightarrow> (unique \<longrightarrow> (\<exists>n. limit \<le> int (card (set (bodies rng
                  (remaining_length_of total_length country_code local_code) n))))))
       \<and> (generate_phone_numbers rng total_length country_code local_code limit
              include_plus unique = None
          \<longleftrightarrow> unique \<and> (\<forall>n. int (card (set (bodies rng
                  (remaining_length_of total_length country_code local_code) n))) < limit))"
proof -
  let ?g = "generate_phone_numbers rng total_length country_code local_code limit
      include_plus unique"
  let ?enough = "\<exists>n. limit \<le> int (card (set (bodies rng
      (remaining_length_of total_length country_code local_code) n)))"
  note returns = generate_returns [OF valid, of rng include_plus]
  have no_error: "\<And>e. ?g \<noteq> Some (Inl e)" by (simp add: generate_valid [OF valid])
  have "?g = None \<longleftrightarrow> \<not> (\<exists>results. ?g = Some (Inr results))"
  proof (cases ?g)
    case None
    then show ?thesis by simp
  next
    case (Some x)
    then show ?thesis using no_error by (cases x) auto
  qed
  also have "\<dots> \<longleftrightarrow> \<not> (unique \<longrightarrow> ?enough)" using returns by simp
  also have "\<dots> \<longleftrightarrow> unique \<and> (\<forall>n. int (card (set (bodies rng
      (remaining_length_of total_length country_code local_code) n))) < limit)"
    by (auto simp: not_le)
  finally show ?thesis using returns by blast
qed

text \<open>
  A source that always draws the digit 0, asked for two unique numbers of one random
  digit: the configuration is valid, the first number is kept, and every later
  iteration is a collision.
\<close>

theorem loop_termination_counterexample:
  "valid_config 2 ''1'' '''' 2 True
   \<and> generate_phone_numbers (constant_source 0) 2 ''1'' '''' 2 True True = None"
proof -
  have valid: "valid_config 2 ''1'' '''' 2 True" by code_simp
  from generate_constant_source_diverges [OF valid, of 0 True] valid show ?thesis by simp
qed

text \<open>The same configuration on the source that counts.\<close>

theorem loop_termination_witness:
  "valid_config 2 ''1'' '''' 2 True
   \<and> 2 \<le> int (card (set (bodies counting_source (remaining_length_of 2 ''1'' '''') 2)))
   \<and> generate_phone_numbers counting_source 2 ''1'' '''' 2 True True \<noteq> None
   \<and> generate_phone_numbers counting_source 2 ''1'' '''' 2 True True
       = Some (Inr [''+10'', ''+11''])"
proof -
  have valid: "valid_config 2 ''1'' '''' 2 True" by code_simp
  have enough: "2 \<le> int (card (set (bodies counting_source (remaining_length_of 2 ''1'' '''') 2)))"
    by code_simp
  have run: "generate_phone_numbers counting_source 2 ''1'' '''' 2 True True
       = Some (Inr [''+10'', ''+11''])" by code_simp
  from loop_termination [OF valid, of counting_source True, THEN conjunct2] enough
  have "generate_phone_numbers counting_source 2 ''1'' '''' 2 True True \<noteq> None"
    by (auto simp: not_less)
  with valid enough run show ?thesis by simp
qed

text \<open>
  Claim C8. For every valid configuration, every string that
  \<^verbatim>\<open>generate_phone_numbers\<close> returns starts with the separator \<open>+\<close> if
  \<open>include_plus\<close> is true, and none does if it is false.
\<close>

theorem separator_property:
  assumes ret: "generate_phone_numbers rng total_length country_code local_code limit
      include_plus unique = Some (Inr results)"
    and s: "s \<in> set results"
  shows "prefix ''+'' s \<longleftrightarrow> include_plus"
  using generate_results [OF ret] s by blast

text \<open>The same configuration with and without the separator.\<close>

theorem separator_property_witness:
  "generate_phone_numbers counting_source 3 ''1'' '' 2'' 2 True False = Some (Inr [''+120'', ''+121''])
   \<and> generate_phone_numbers counting_source 3 ''+1'' ''2 '' 2 False False = Some (Inr [''120'', ''121''])
   \<and> prefix ''+'' ''+121'' \<and> \<not> prefix ''+'' ''121''"
proof -
  have with_plus: "generate_phone_numbers counting_source 3 ''1'' '' 2'' 2 True False
      = Some (Inr [''+120'', ''+121''])" by code_simp
  have no_plus: "generate_phone_numbers counting_source 3 ''+1'' ''2 '' 2 False False
      = Some (Inr [''120'', ''121''])" by code_simp
  from separator_property [OF with_plus, of "''+121''"] separator_property [OF no_plus, of "''121''"]
    with_plus no_plus
  show ?thesis by simp
qed

text \<open>
  Claim C9, as amended. When the file can be opened for writing, \<^verbatim>\<open>save_to_csv\<close>
  writes the header record \<open>Phone Number\<close> and then one record for each number,
  with the number as its only field. Reading the written file back gives the header
  record followed by these records, and so, the header left out, the original sequence
  of strings in its order, exactly when no number has more characters than the field
  limit of the reader, 131072; with a longer number the reader fails. This holds for
  all strings, also those that the writer has to quote. The claim as stated has the
  round trip for every sequence of numbers. (When the file cannot be opened,
  \<^verbatim>\<open>save_to_csv\<close> fails and nothing is written: \<open>write_then_read_refused\<close>.)
\<close>

theorem csv_round_trip:
  assumes opened: "open_error fs filename = None"
  shows "save_to_csv phone_numbers filename fs
           = Inr (fs\<lparr>files := (files fs)(filename \<mapsto>
                   ''Phone Number'' @ [CR, LF] @ writerows (map (\<lambda>p. [p]) phone_numbers))\<rparr>)
       \<and> write_then_read phone_numbers filename fs
           = Inr (if list_all (\<lambda>p. length p \<le> field_limit) phone_numbers
                  then Some ([''Phone Number''] # map (\<lambda>p. [p]) phone_numbers) else None)
       \<and> (list_all (\<lambda>p. length p \<le> field_limit) phone_numbers \<longrightarrow>
            (\<exists>records. write_then_read phone_numbers filename fs = Inr (Some records)
               \<and> hd records = [''Phone Number'']
               \<and> map hd (tl records) = phone_numbers))"
proof -
  have "list_ex needs_quoting ''Phone Number'' = False"
    by (simp add: needs_quoting_def csv_chars)
  then have "writerow [''Phone Number''] = ''Phone Number'' @ [CR, LF]"
    by (simp add: writerow_def join_append_def lineterminator_def)
  with opened have written: "save_to_csv phone_numbers filename fs
      = Inr (fs\<lparr>files := (files fs)(filename \<mapsto>
              ''Phone Number'' @ [CR, LF] @ writerows (map (\<lambda>p. [p]) phone_numbers))\<rparr>)"
    by (simp add: save_to_csv_def)
  note read = write_then_read_opened [OF opened, of phone_numbers]
  have "\<exists>records. write_then_read phone_numbers filename fs = Inr (Some records)
      \<and> hd records = [''Phone Number''] \<and> map hd (tl records) = phone_numbers"
    if "list_all (\<lambda>p. length p \<le> field_limit) phone_numbers"
    using that read by (simp add: comp_def)
  with written read show ?thesis by blast
qed

text \<open>
  One number of 131073 digits, which the generator can return
  (\<open>generate_long_number\<close>): the file is written, and the reader fails on it.
\<close>

theorem csv_round_trip_counterexample:
  "open_error empty_filesystem ''phone_numbers.csv'' = None
   \<and> write_then_read [replicate 131073 CHR ''1''] ''phone_numbers.csv'' empty_filesystem
       = Inr None"
proof -
  have "open_error empty_filesystem ''phone_numbers.csv'' = None"
    by (simp add: open_error_def empty_filesystem_def)
  with long_field_refused show ?thesis by (rule conjI [rotated])
qed

text \<open>Two numbers of the example of the specification, written to a new file.\<close>

theorem csv_round_trip_witness:
  "open_error empty_filesystem ''phone_numbers.csv'' = None
   \<and> list_all (\<lambda>p. length p \<le> field_limit) [''+14150123456'', ''+14157890123'']
   \<and> write_then_read [''+14150123456'', ''+14157890123''] ''phone_numbers.csv'' empty_filesystem
       = Inr (Some [[''Phone Number''], [''+14150123456''], [''+14157890123'']])
   \<and> map hd (tl [[''Phone Number''], [''+14150123456''], [''+14157890123'']])
       = [''+14150123456'', ''+14157890123'']"
proof -
  have opened: "open_error empty_filesystem ''phone_numbers.csv'' = None"
    by (simp add: open_error_def empty_filesystem_def)
  have short: "list_all (\<lambda>p. length p \<le> field_limit) [''+14150123456'', ''+14157890123'']"
    by (simp add: field_limit_def)
  from csv_round_trip [OF opened, of "[''+14150123456'', ''+14157890123'']"] short
  have "write_then_read [''+14150123456'', ''+14157890123''] ''phone_numbers.csv'' empty_filesystem
       = Inr (Some [[''Phone Number''], [''+14150123456''], [''+14157890123'']])"
    by simp
  with opened short show ?thesis by simp
qed

text \<open>
  Claim C10. A country code that is empty or made of whitespace and \<open>+\<close>
  characters only is rejected by \<^verbatim>\<open>generate_phone_numbers\<close> with an error of kind
  \<open>InvalidConfiguration\<close>, the country-code error when the total length is
  positive: what is left of it after stripping is not a string of digits, and the
  empty string is not one.
\<close>

theorem blank_country_code_rejected:
  assumes blank: "blank_or_plus country_code"
  shows "\<not> isdigit (lstrip ''+'' (strip country_code))
       \<and> (\<exists>e. generate_phone_numbers rng total_length country_code local_code limit
                include_plus unique = Some (Inl e)
              \<and> kind_of e = InvalidConfiguration
              \<and> (0 < total_length \<longrightarrow> e = CountryCodeNotDigits))"
proof -
  from blank have bad: "\<not> isdigit (lstrip ''+'' (strip country_code))"
    by (rule blank_or_plus_not_digits)
  let ?e = "if total_length \<le> 0 then TotalLengthNotPositive else CountryCodeNotDigits"
  from bad have "generate_phone_numbers rng total_length country_code local_code limit
      include_plus unique = Some (Inl ?e)"
    by (simp add: generate_phone_numbers_def)
  moreover have "kind_of ?e = InvalidConfiguration" by simp
  moreover have "0 < total_length \<longrightarrow> ?e = CountryCodeNotDigits" by simp
  ultimately show ?thesis using bad by blast
qed

text \<open>The empty country code, and two of whitespace and separators.\<close>

theorem blank_country_code_rejected_witness:
  "blank_or_plus '''' \<and> blank_or_plus '' ++ '' \<and> blank_or_plus ''+ +''
   \<and> lstrip ''+'' (strip '' ++ '') = ''''
   \<and> generate_phone_numbers counting_source 5 '''' ''1'' 2 True True
       = Some (Inl CountryCodeNotDigits)
   \<and> generate_phone_numbers counting_source 5 '' ++ '' ''1'' 2 True True
       = Some (Inl CountryCodeNotDigits)
   \<and> generate_phone_numbers counting_source 5 ''+ +'' ''1'' 2 True True
       = Some (Inl CountryCodeNotDigits)"
proof -
  have blank: "blank_or_plus ''''" "blank_or_plus '' ++ ''" "blank_or_plus ''+ +''"
    by code_simp+
  have stripped: "lstrip ''+'' (strip '' ++ '') = ''''" by code_simp
  from blank_country_code_rejected [OF blank(1), of counting_source 5 "''1''" 2 True True]
    blank_country_code_rejected [OF blank(2), of counting_source 5 "''1''" 2 True True]
    blank_country_code_rejected [OF blank(3), of counting_source 5 "''1''" 2 True True]
    blank stripped
  show ?thesis by auto
qed

end
